theory Spec2Isabelle
  imports Complex_Main "HOL-Library.Sublist"
begin

section \<open>Python values\<close>

text \<open>
  A Python \<open>str\<close> is a sequence of Unicode code points. A code point is a natural number,
  so every Python string is a value of \<open>pystr\<close>; \<open>py\<close> embeds an ASCII literal.
\<close>

type_synonym pystr = "nat list"

definition py :: "string \<Rightarrow> pystr" where
  "py s = map of_char s"

text \<open>The exceptions the library calls of the script raise; all derive from \<open>Exception\<close>.\<close>

datatype exn = RequestException | HTTPError | OSError | ValueError

text \<open>
  The script calls library functions whose behaviour is fixed by tables that are not part
  of the repository (the Unicode database, the float parser, the URL parser). They are
  parameters of the model:
  \<^item> \<open>str_isspace\<close>: \<open>str.isspace\<close> on one code point, the class that \<open>str.strip()\<close>
    removes and that \<open>\s\<close> matches in a \<open>str\<close> pattern;
  \<^item> \<open>re_digit\<close>: the class \<open>\d\<close> of a \<open>str\<close> pattern;
  \<^item> \<open>str_upper\<close>, \<open>str_lower\<close>: \<open>str.upper()\<close> and \<open>str.lower()\<close> (on whole strings: one
    code point may become several, and lowering depends on the context);
  \<^item> \<open>float_of\<close>: \<open>float(v)\<close>, which raises \<open>ValueError\<close> on a malformed literal; the type
    \<open>'f\<close> stands for the floating-point numbers;
  \<^item> \<open>urljoin_base\<close>: \<open>urljoin(BASE, u)\<close>, which raises \<open>ValueError\<close> on a malformed URL;
  \<^item> \<open>urlparse_path\<close>: \<open>urlparse(u).path\<close>.
\<close>

record 'f pylib =
  str_isspace :: "nat \<Rightarrow> bool"
  re_digit :: "nat \<Rightarrow> bool"
  str_upper :: "pystr \<Rightarrow> pystr"
  str_lower :: "pystr \<Rightarrow> pystr"
  float_of :: "pystr \<Rightarrow> exn + 'f"
  urljoin_base :: "pystr \<Rightarrow> exn + pystr"
  urlparse_path :: "pystr \<Rightarrow> pystr"

text \<open>\<open>text or ""\<close>: \<open>None\<close> and the empty string both give the empty string.\<close>

definition or_empty :: "pystr option \<Rightarrow> pystr" where
  "or_empty text = (case text of None \<Rightarrow> [] | Some s \<Rightarrow> s)"

text \<open>\<open>s.startswith(k)\<close> and the substring test \<open>k in t\<close>.\<close>

fun startswith :: "pystr \<Rightarrow> pystr \<Rightarrow> bool" where
  "startswith s [] = True"
| "startswith [] (k # ks) = False"
| "startswith (c # cs) (k # ks) = (c = k \<and> startswith cs ks)"

fun contains :: "pystr \<Rightarrow> pystr \<Rightarrow> bool" where
  "contains [] k = (k = [])"
| "contains (c # cs) k = (startswith (c # cs) k \<or> contains cs k)"

section \<open>guess\_style\_and\_color\<close>

text \<open>The dictionary \<open>mapc\<close>; a Python dictionary iterates in insertion order.\<close>

definition mapc :: "(pystr \<times> pystr) list" where
  "mapc =
    [(py ''negro'', py ''#111111''),
     (py ''blanco'', py ''#f5f5f5''),
     (py ''nogal'', py ''#6b3f21''),
     (py ''caoba'', py ''#7a3b1f''),
     (py ''chocolate'', py ''#4b2b1a''),
     (py ''natural'', py ''#c9b18c''),
     (py ''maple'', py ''#e0b977''),
     (py ''wengue'', py ''#3a2a1a''),
     (py ''roble'', py ''#916c44''),
     (py ''azul'', py ''#1f3a5a''),
     (py ''gris'', py ''#777777''),
     (py ''plata'', py ''#c0c0c0''),
     (py ''dorado'', py ''#c7a446''),
     (py ''oro'', py ''#c7a446''),
     (py ''bronce'', py ''#8c6b3f''),
     (py ''marfil'', py ''#f0eee6'')]"

definition metal_keywords :: "pystr list" where
  "metal_keywords = [py ''plata'', py ''dorado'', py ''oro'', py ''bronce'', py ''metal'']"

text \<open>The loop \<open>for k, v in mapc.items(): if k in t: color = v; break\<close>.\<close>

fun scan_color :: "(pystr \<times> pystr) list \<Rightarrow> pystr \<Rightarrow> pystr \<Rightarrow> pystr" where
  "scan_color [] t color = color"
| "scan_color ((k, v) # rest) t color = (if contains t k then v else scan_color rest t color)"

definition guess_style_and_color :: "'f pylib \<Rightarrow> pystr option \<Rightarrow> pystr \<times> pystr" where
  "guess_style_and_color L name =
     (let t = str_lower L (or_empty name);
          style = py ''grain'';
          color = py ''#555555'';
          color = scan_color mapc t color;
          style = (if list_ex (contains t) metal_keywords then py ''metal'' else style)
      in (style, color))"

section \<open>slug\_from\_url and clean\_id\<close>

text \<open>\<open>s.strip()\<close> removes the whitespace at both ends, \<open>s.strip("/")\<close> the slashes.\<close>

definition strip_class :: "(nat \<Rightarrow> bool) \<Rightarrow> pystr \<Rightarrow> pystr" where
  "strip_class p s = rev (dropWhile p (rev (dropWhile p s)))"

text \<open>\<open>s.split(sep)\<close> for a separator of one character; the result is never empty.\<close>

fun split_on :: "nat \<Rightarrow> pystr \<Rightarrow> pystr list" where
  "split_on sep [] = [[]]"
| "split_on sep (c # cs) =
     (if c = sep then [] # split_on sep cs
      else (case split_on sep cs of [] \<Rightarrow> [[c]] | p # ps \<Rightarrow> (c # p) # ps))"

definition str_replace :: "nat \<Rightarrow> nat \<Rightarrow> pystr \<Rightarrow> pystr" where
  "str_replace a b s = map (\<lambda>c. if c = a then b else c) s"

definition slug_from_url :: "'f pylib \<Rightarrow> pystr \<Rightarrow> pystr" where
  "slug_from_url L url =
     (let path = split_on 47 (strip_class (\<lambda>c. c = 47) (urlparse_path L url));
          seg = last path
      in str_replace 45 95 (str_upper L (if seg = [] then py ''producto'' else seg)))"

text \<open>The class \<open>[A-Z0-9_-]\<close>.\<close>

definition id_char :: "nat \<Rightarrow> bool" where
  "id_char c = ((65 \<le> c \<and> c \<le> 90) \<or> (48 \<le> c \<and> c \<le> 57) \<or> c = 95 \<or> c = 45)"

text \<open>
  \<open>re.sub(r"[^A-Z0-9_-]+", "", text)\<close>: scanning from the left, a character of the class is
  kept, and at a character outside it the longest run of such characters is one match,
  replaced by the empty string.
\<close>

function re_sub_invalid :: "pystr \<Rightarrow> pystr" where
  "re_sub_invalid [] = []"
| "re_sub_invalid (c # cs) =
     (if id_char c then c # re_sub_invalid cs
      else re_sub_invalid (dropWhile (\<lambda>x. \<not> id_char x) cs))"
  by pat_completeness auto
termination
  by (relation "measure length") (auto simp: less_Suc_eq_le length_dropWhile_le)

definition clean_id :: "'f pylib \<Rightarrow> pystr option \<Rightarrow> pystr option" where
  "clean_id L text =
     (let text = str_upper L (strip_class (str_isspace L) (or_empty text));
          text = re_sub_invalid text
      in if text = [] then None else Some text)"

section \<open>parse\_width\_cm\<close>

text \<open>
  The pattern \<open>(\d+(?:[.,]\d+)?)\s*cm\<close> with \<open>re.I\<close>, as the backtracking matcher runs it.
  A greedy quantifier over a character class offers every prefix of the class of at least
  \<open>lo\<close> characters, the longest first; the optional group is tried before its absence;
  under \<open>re.I\<close> the letters \<open>c\<close> and \<open>m\<close> match their two cases and nothing else.
  \<open>match_here\<close> lists group 1 of every successful path of the matcher at the start of
  \<open>s\<close>, in the order of the matcher's preference, so that its head is what the matcher
  reports. \<open>re_search\<close> tries every start position from the left.
\<close>

definition greedy :: "(nat \<Rightarrow> bool) \<Rightarrow> nat \<Rightarrow> pystr \<Rightarrow> (pystr \<times> pystr) list" where
  "greedy p lo s =
     map (\<lambda>n. (take n s, drop n s)) (rev [lo ..< Suc (length (takeWhile p s))])"

definition is_sep :: "nat \<Rightarrow> bool" where
  "is_sep c = (c = 46 \<or> c = 44)"

definition is_c :: "nat \<Rightarrow> bool" where
  "is_c c = (c = 99 \<or> c = 67)"

definition is_m :: "nat \<Rightarrow> bool" where
  "is_m c = (c = 109 \<or> c = 77)"

definition opt_frac :: "'f pylib \<Rightarrow> pystr \<Rightarrow> (pystr \<times> pystr) list" where
  "opt_frac L s =
     (case s of
        [] \<Rightarrow> []
      | c # r \<Rightarrow> if is_sep c then map (\<lambda>(fs, r'). (c # fs, r')) (greedy (re_digit L) 1 r) else [])
     @ [([], s)]"

definition cm_here :: "pystr \<Rightarrow> bool" where
  "cm_here s = (case s of c # m # rest \<Rightarrow> is_c c \<and> is_m m | _ \<Rightarrow> False)"

definition match_here :: "'f pylib \<Rightarrow> pystr \<Rightarrow> pystr list" where
  "match_here L s =
     concat (map (\<lambda>(ds, r1).
       concat (map (\<lambda>(fr, r2).
         concat (map (\<lambda>(ws, r3). if cm_here r3 then [ds @ fr] else [])
           (greedy (str_isspace L) 0 r2)))
         (opt_frac L r1)))
       (greedy (re_digit L) 1 s))"

fun re_search :: "'f pylib \<Rightarrow> pystr \<Rightarrow> pystr option" where
  "re_search L [] = (case match_here L [] of [] \<Rightarrow> None | g # gs \<Rightarrow> Some g)"
| "re_search L (c # cs) =
     (case match_here L (c # cs) of [] \<Rightarrow> re_search L cs | g # gs \<Rightarrow> Some g)"

definition parse_width_cm :: "'f pylib \<Rightarrow> pystr option \<Rightarrow> 'f option" where
  "parse_width_cm L text =
     (case text of
        None \<Rightarrow> None
      | Some t \<Rightarrow>
          if t = [] then None
          else (case re_search L t of
                  None \<Rightarrow> None
                | Some g \<Rightarrow>
                    (let v = str_replace 44 46 g
                     in case float_of L v of Inl e \<Rightarrow> None | Inr x \<Rightarrow> Some x)))"

section \<open>extract\_product\<close>

text \<open>
  The parsed page is used through \<open>select_one\<close> with five selectors only; \<open>select_one\<close>
  gives the first matching element or \<open>None\<close>. Of an element the script reads the text
  (\<open>get_text\<close>) and attributes (\<open>get\<close>, \<open>None\<close> when the attribute is absent).
\<close>

datatype selector =
    Sel_title          \<comment> \<open>\<open>h1.product_title, h1.entry-title\<close>\<close>
  | Sel_sku            \<comment> \<open>\<open>span.sku, .sku, .product_meta .sku\<close>\<close>
  | Sel_og_image       \<comment> \<open>\<open>meta[property="og:image"]\<close>\<close>
  | Sel_gallery_img    \<comment> \<open>\<open>.woocommerce-product-gallery__image img\<close>\<close>
  | Sel_wp_post_image  \<comment> \<open>\<open>img.wp-post-image\<close>\<close>

record element =
  get_text :: pystr
  get_attr :: "pystr \<Rightarrow> pystr option"

type_synonym soup = "selector \<Rightarrow> element option"

text \<open>Truth value of an optional string, and \<open>a or b\<close>.\<close>

definition truthy :: "pystr option \<Rightarrow> bool" where
  "truthy a = (case a of None \<Rightarrow> False | Some v \<Rightarrow> v \<noteq> [])"

definition py_or :: "pystr option \<Rightarrow> pystr option \<Rightarrow> pystr option" where
  "py_or a b = (if truthy a then a else b)"

text \<open>\<open>if a: img_url = urljoin(BASE, a)\<close>, where \<open>urljoin\<close> may raise.\<close>

definition join_if :: "'f pylib \<Rightarrow> pystr option \<Rightarrow> pystr option \<Rightarrow> exn + pystr option" where
  "join_if L a img_url =
     (case a of
        None \<Rightarrow> Inr img_url
      | Some v \<Rightarrow>
          if v = [] then Inr img_url
          else (case urljoin_base L v of Inl e \<Rightarrow> Inl e | Inr u \<Rightarrow> Inr (Some u)))"

definition extract_img_url :: "'f pylib \<Rightarrow> soup \<Rightarrow> exn + pystr option" where
  "extract_img_url L soup =
     (case (case soup Sel_og_image of
              None \<Rightarrow> Inr None
            | Some og \<Rightarrow> join_if L (get_attr og (py ''content'')) None) of
        Inl e \<Rightarrow> Inl e
      | Inr img_url \<Rightarrow>
     (case (if \<not> truthy img_url
            then (case soup Sel_gallery_img of
                    None \<Rightarrow> Inr img_url
                  | Some g \<Rightarrow>
                      join_if L (py_or (get_attr g (py ''data-large_image'')) (get_attr g (py ''src'')))
                        img_url)
            else Inr img_url) of
        Inl e \<Rightarrow> Inl e
      | Inr img_url \<Rightarrow>
          if \<not> truthy img_url
          then (case soup Sel_wp_post_image of
                  None \<Rightarrow> Inr img_url
                | Some wpi \<Rightarrow> join_if L (get_attr wpi (py ''src'')) img_url)
          else Inr img_url))"

record 'f product_data =
  d_id :: "pystr option"
  d_name :: pystr
  d_width_cm :: "'f option"
  d_color :: pystr
  d_style :: pystr
  d_img_url :: "pystr option"

text \<open>\<open>page\<close> is the outcome of \<open>get_soup(url)\<close>: the parsed page, or the exception raised.\<close>

definition extract_product :: "'f pylib \<Rightarrow> exn + soup \<Rightarrow> pystr \<Rightarrow> exn + 'f product_data" where
  "extract_product L page url =
     (case page of
        Inl e \<Rightarrow> Inl e
      | Inr soup \<Rightarrow>
          (let title = (case soup Sel_title of
                          None \<Rightarrow> slug_from_url L url
                        | Some title_el \<Rightarrow> get_text title_el);
               sku = clean_id L (case soup Sel_sku of
                                   None \<Rightarrow> None
                                 | Some sku_el \<Rightarrow> Some (get_text sku_el));
               sku = (if \<not> truthy sku then clean_id L (Some (slug_from_url L url)) else sku)
           in case extract_img_url L soup of
                Inl e \<Rightarrow> Inl e
              | Inr img_url \<Rightarrow>
                  (let width_cm = parse_width_cm L (Some title);
                       sc = guess_style_and_color L (Some title)
                   in Inr \<lparr> d_id = sku, d_name = title, d_width_cm = width_cm,
                            d_color = snd sc, d_style = fst sc, d_img_url = img_url \<rparr>)))"

section \<open>download\_image\<close>

text \<open>
  The network and the disk, as one download meets them: the outcome of \<open>requests.get\<close>
  (a response, or the exception raised) and of opening and writing the file (\<open>None\<close> when
  it succeeds). \<open>raise_for_status\<close> raises on the status codes 400 to 599. The second
  component of the result lists the URLs requested from the network.
\<close>

record response =
  status_code :: nat
  content :: "nat list"

record img_env =
  img_get :: "exn + response"
  img_write :: "exn option"

datatype effect = Net_get pystr | File_write pystr "nat list"

text \<open>The body of the \<open>try\<close> block.\<close>

definition download_try :: "img_env \<Rightarrow> pystr \<Rightarrow> pystr \<Rightarrow> (exn + bool) \<times> effect list" where
  "download_try env url path =
     (case img_get env of
        Inl e \<Rightarrow> (Inl e, [Net_get url])
      | Inr r \<Rightarrow>
          if 400 \<le> status_code r \<and> status_code r < 600 then (Inl HTTPError, [Net_get url])
          else (case img_write env of
                  Some e \<Rightarrow> (Inl e, [Net_get url])
                | None \<Rightarrow> (Inr True, [Net_get url, File_write path (content r)])))"

definition download_image ::
  "img_env \<Rightarrow> pystr option \<Rightarrow> pystr \<Rightarrow> (exn + bool) \<times> effect list" where
  "download_image env url path =
     (if \<not> truthy url then (Inr False, [])
      else (case download_try env (or_empty url) path of
              (Inl e, fx) \<Rightarrow> (Inr False, fx)
            | (Inr ok, fx) \<Rightarrow> (Inr ok, fx)))"

section \<open>main\<close>

text \<open>
  One product link of a run: the URL, the outcome of fetching its page, and the network
  and disk that a download of its image meets. \<open>products\<close> is the dictionary of the run,
  in insertion order. A record of the output is a JSON object: the keys with their values.
\<close>

record item =
  it_url :: pystr
  it_page :: "exn + soup"
  it_img :: img_env

datatype 'f json = JNull | JString pystr | JNumber 'f

type_synonym 'f json_object = "(pystr \<times> 'f json) list"

definition json_opt_str :: "pystr option \<Rightarrow> 'f json" where
  "json_opt_str a = (case a of None \<Rightarrow> JNull | Some v \<Rightarrow> JString v)"

definition json_opt_num :: "'f option \<Rightarrow> 'f json" where
  "json_opt_num a = (case a of None \<Rightarrow> JNull | Some x \<Rightarrow> JNumber x)"

definition img_path_of :: "pystr \<Rightarrow> pystr" where
  "img_path_of pid = py ''img/molduras/'' @ pid @ py ''.jpg''"

definition make_rec :: "'f product_data \<Rightarrow> pystr \<Rightarrow> bool \<Rightarrow> 'f json_object" where
  "make_rec data pid ok =
     [(py ''id'', JString pid),
      (py ''name'', JString (d_name data)),
      (py ''width_cm'', json_opt_num (d_width_cm data)),
      (py ''color'', JString (d_color data)),
      (py ''style'', JString (d_style data)),
      (py ''img'', if ok then JString (img_path_of pid) else JNull)]"

text \<open>The body of the loop over the links, with its \<open>try\<close> and its two \<open>continue\<close>.\<close>

definition process_link ::
  "'f pylib \<Rightarrow> (pystr \<times> 'f json_object) list \<Rightarrow> item \<Rightarrow> (pystr \<times> 'f json_object) list" where
  "process_link L products it =
     (case extract_product L (it_page it) (it_url it) of
        Inl e \<Rightarrow> products
      | Inr data \<Rightarrow>
          if \<not> truthy (d_id data) then products
          else (let pid = or_empty (d_id data) in
                if pid \<in> set (map fst products) then products
                else (case fst (download_image (it_img it) (d_img_url data) (img_path_of pid)) of
                        Inl e \<Rightarrow> products
                      | Inr ok \<Rightarrow> products @ [(pid, make_rec data pid ok)])))"

fun run_links ::
  "'f pylib \<Rightarrow> (pystr \<times> 'f json_object) list \<Rightarrow> item list \<Rightarrow> (pystr \<times> 'f json_object) list" where
  "run_links L products [] = products"
| "run_links L products (it # its) = run_links L (process_link L products it) its"

text \<open>
  A category is the outcome of \<open>find_product_links\<close>: the sorted links, or the exception
  the discovery raised, which \<open>main\<close> does not catch.
\<close>

fun run_categories ::
  "'f pylib \<Rightarrow> (pystr \<times> 'f json_object) list \<Rightarrow> (exn + item list) list
     \<Rightarrow> exn + (pystr \<times> 'f json_object) list" where
  "run_categories L products [] = Inr products"
| "run_categories L products (cat # cats) =
     (case cat of
        Inl e \<Rightarrow> Inl e
      | Inr links \<Rightarrow> run_categories L (run_links L products links) cats)"

text \<open>\<open>main\<close> returns the array written to the output file, or the exception that ends it.\<close>

definition main :: "'f pylib \<Rightarrow> (exn + item list) list \<Rightarrow> exn + 'f json_object list" where
  "main L cats =
     (case run_categories L [] cats of
        Inl e \<Rightarrow> Inl e
      | Inr products \<Rightarrow> Inr (map snd products))"

section \<open>Notions of the specification\<close>

text \<open>
  The values that the three image sources offer, in the order of the specification: the
  \<open>content\<close> of the Open Graph tag, the \<open>data-large_image\<close> or else the \<open>src\<close> of the
  gallery image, the \<open>src\<close> of the featured image. An absent element or attribute offers
  the empty string.
\<close>

definition attr_of :: "soup \<Rightarrow> selector \<Rightarrow> pystr \<Rightarrow> pystr" where
  "attr_of soup sel k = (case soup sel of None \<Rightarrow> [] | Some e \<Rightarrow> or_empty (get_attr e k))"

definition image_sources :: "soup \<Rightarrow> pystr list" where
  "image_sources soup =
     [attr_of soup Sel_og_image (py ''content''),
      (if attr_of soup Sel_gallery_img (py ''data-large_image'') \<noteq> []
       then attr_of soup Sel_gallery_img (py ''data-large_image'')
       else attr_of soup Sel_gallery_img (py ''src'')),
      attr_of soup Sel_wp_post_image (py ''src'')]"

text \<open>
  A width token at the start of \<open>s\<close>: digits, optionally a separator \<open>.\<close> or \<open>,\<close> and
  digits, then optional whitespace and the unit \<open>cm\<close> in either case. \<open>tok\<close> is the
  numeric part.
\<close>

definition width_token :: "'f pylib \<Rightarrow> pystr \<Rightarrow> pystr \<Rightarrow> bool" where
  "width_token L s tok \<longleftrightarrow>
     (\<exists>ds fr ws c m rest.
        s = ds @ fr @ ws @ [c, m] @ rest \<and> tok = ds @ fr \<and>
        ds \<noteq> [] \<and> list_all (re_digit L) ds \<and>
        (fr = [] \<or> (\<exists>sp fs. fr = sp # fs \<and> is_sep sp \<and> fs \<noteq> [] \<and> list_all (re_digit L) fs)) \<and>
        list_all (str_isspace L) ws \<and> is_c c \<and> is_m m)"

text \<open>
  The classes of the pattern do not overlap: no digit is a separator, whitespace or the
  letter \<open>c\<close>, and no whitespace is a separator. This holds of Python's tables.
\<close>

definition classes_disjoint :: "'f pylib \<Rightarrow> bool" where
  "classes_disjoint L \<longleftrightarrow>
     (\<forall>c. re_digit L c \<longrightarrow> \<not> is_sep c \<and> \<not> str_isspace L c \<and> \<not> is_c c) \<and>
     (\<forall>c. str_isspace L c \<longrightarrow> \<not> is_sep c)"

text \<open>
  What one link contributes to a run, whatever came before it: nothing when its extraction
  raises or its identifier is null or empty, else the identifier with the record that the
  link gives when it is recorded. \<open>all_links\<close> are the links of a run in processing order.
\<close>

definition resolve :: "'f pylib \<Rightarrow> item \<Rightarrow> (pystr \<times> 'f product_data) option" where
  "resolve L it =
     (case extract_product L (it_page it) (it_url it) of
        Inl e \<Rightarrow> None
      | Inr data \<Rightarrow> if truthy (d_id data) then Some (or_empty (d_id data), data) else None)"

definition download_ok :: "item \<Rightarrow> 'f product_data \<Rightarrow> pystr \<Rightarrow> bool" where
  "download_ok it data pid \<longleftrightarrow>
     fst (download_image (it_img it) (d_img_url data) (img_path_of pid)) = Inr True"

definition entry :: "'f pylib \<Rightarrow> item \<Rightarrow> (pystr \<times> 'f json_object) option" where
  "entry L it =
     (case resolve L it of
        None \<Rightarrow> None
      | Some (pid, data) \<Rightarrow> Some (pid, make_rec data pid (download_ok it data pid)))"

fun all_links :: "(exn + item list) list \<Rightarrow> item list" where
  "all_links [] = []"
| "all_links (Inl e # cats) = all_links cats"
| "all_links (Inr links # cats) = links @ all_links cats"

text \<open>Insertion into the dictionary unless the key is there.\<close>

definition add_new :: "('k \<times> 'v) list \<Rightarrow> 'k \<times> 'v \<Rightarrow> ('k \<times> 'v) list" where
  "add_new ps kv = (if fst kv \<in> set (map fst ps) then ps else ps @ [kv])"

text \<open>The title \<open>Marco Plata Metalico 5 cm\<close>, whose accented \<open>a\<close> is the code point U+00E1.\<close>

definition title_plata :: pystr where
  "title_plata = py ''Marco Plata Met'' @ [225] @ py ''lico 5 cm''"

section \<open>A library instance for concrete runs\<close>

text \<open>
  Python's tables on a fragment, for evaluating the script on concrete inputs: the Unicode
  classes and case mappings are those of the code points below 256 (Latin-1), \<open>float\<close> is
  given on ASCII decimal literals \<open>digits[.digits]\<close> with their exact decimal value (such as
  5.0; rounding to binary64 is not modelled), \<open>urljoin\<close> on absolute \<open>http(s)\<close> URLs
  (which it returns, or rejects with \<open>ValueError\<close> when the host has an unmatched square
  bracket; hosts with a matched pair of brackets are outside the fragment) and on
  relative paths without \<open>.\<close> segments, query, fragment, scheme or leading \<open>//\<close>, and
  \<open>urlparse(u).path\<close> on \<open>http(s)\<close> URLs without parameters and without brackets in the
  host. The examples stay inside this fragment.
\<close>

definition latin1_isspace :: "nat \<Rightarrow> bool" where
  "latin1_isspace c = (c \<in> set [9, 10, 11, 12, 13, 28, 29, 30, 31, 32, 133, 160])"

definition ascii_digit :: "nat \<Rightarrow> bool" where
  "ascii_digit c = (48 \<le> c \<and> c \<le> 57)"

definition latin1_lower_cp :: "nat \<Rightarrow> nat" where
  "latin1_lower_cp c =
     (if (65 \<le> c \<and> c \<le> 90) \<or> (192 \<le> c \<and> c \<le> 222 \<and> c \<noteq> 215) then c + 32 else c)"

definition latin1_upper_cp :: "nat \<Rightarrow> pystr" where
  "latin1_upper_cp c =
     (if (97 \<le> c \<and> c \<le> 122) \<or> (224 \<le> c \<and> c \<le> 254 \<and> c \<noteq> 247) then [c - 32]
      else if c = 223 then [83, 83]
      else if c = 181 then [924]
      else if c = 255 then [376]
      else [c])"

definition digits_value :: "pystr \<Rightarrow> nat" where
  "digits_value ds = foldl (\<lambda>a d. 10 * a + (d - 48)) 0 ds"

definition decimal_float :: "pystr \<Rightarrow> exn + real" where
  "decimal_float v =
     (let ip = takeWhile ascii_digit v; r = dropWhile ascii_digit v in
      if ip = [] then Inl ValueError
      else if r = [] then Inr (real (digits_value ip))
      else if hd r = 46 \<and> tl r \<noteq> [] \<and> list_all ascii_digit (tl r)
        then Inr (real (digits_value ip) + real (digits_value (tl r)) / 10 ^ length (tl r))
      else Inl ValueError)"

definition BASE :: pystr where
  "BASE = py ''https://www.marcosymarcos.mx/''"

definition url_netloc :: "pystr \<Rightarrow> pystr" where
  "url_netloc u =
     takeWhile (\<lambda>c. c \<noteq> 47 \<and> c \<noteq> 63 \<and> c \<noteq> 35)
       (if startswith u (py ''https://'') then drop 8 u
        else if startswith u (py ''http://'') then drop 7 u
        else [])"

definition simple_urljoin :: "pystr \<Rightarrow> exn + pystr" where
  "simple_urljoin u =
     (if u = [] then Inr BASE
      else if startswith u (py ''https://'') \<or> startswith u (py ''http://'')
        then (if (91 \<in> set (url_netloc u)) \<noteq> (93 \<in> set (url_netloc u)) then Inl ValueError
              else Inr u)
      else if hd u = 47 then Inr (butlast BASE @ u)
      else Inr (BASE @ u))"

definition simple_urlpath :: "pystr \<Rightarrow> pystr" where
  "simple_urlpath u =
     (let h = takeWhile (\<lambda>c. c \<noteq> 63 \<and> c \<noteq> 35) u
      in if startswith h (py ''https://'') then dropWhile (\<lambda>c. c \<noteq> 47) (drop 8 h)
         else if startswith h (py ''http://'') then dropWhile (\<lambda>c. c \<noteq> 47) (drop 7 h)
         else h)"

definition latin1_lib :: "real pylib" where
  "latin1_lib =
     \<lparr> str_isspace = latin1_isspace,
       re_digit = ascii_digit,
       str_upper = (\<lambda>s. concat (map latin1_upper_cp s)),
       str_lower = map latin1_lower_cp,
       float_of = decimal_float,
       urljoin_base = simple_urljoin,
       urlparse_path = simple_urlpath \<rparr>"

section \<open>Concrete pages and environments\<close>

text \<open>
  A page whose Open Graph tag has an empty \<open>content\<close>, whose gallery image has only a
  \<open>src\<close>, and which has a featured image; a product page with the title above; a network
  on which the image request fails, and one on which the download succeeds.
\<close>

definition gallery_soup :: soup where
  "gallery_soup sel =
     (case sel of
        Sel_og_image \<Rightarrow>
          Some \<lparr> get_text = [], get_attr = (\<lambda>k. if k = py ''content'' then Some [] else None) \<rparr>
      | Sel_gallery_img \<Rightarrow>
          Some \<lparr> get_text = [],
                 get_attr = (\<lambda>k. if k = py ''src'' then Some (py ''/g.jpg'') else None) \<rparr>
      | Sel_wp_post_image \<Rightarrow>
          Some \<lparr> get_text = [],
                 get_attr = (\<lambda>k. if k = py ''src'' then Some (py ''/w.jpg'') else None) \<rparr>
      | _ \<Rightarrow> None)"

definition plata_soup :: soup where
  "plata_soup sel =
     (case sel of
        Sel_title \<Rightarrow> Some \<lparr> get_text = title_plata, get_attr = (\<lambda>k. None) \<rparr>
      | Sel_sku \<Rightarrow> Some \<lparr> get_text = py ''mp-5'', get_attr = (\<lambda>k. None) \<rparr>
      | Sel_og_image \<Rightarrow>
          Some \<lparr> get_text = [],
                 get_attr = (\<lambda>k. if k = py ''content'' then Some (py ''/img/mp5.jpg'') else None) \<rparr>
      | _ \<Rightarrow> None)"

definition plata_url :: pystr where
  "plata_url = py ''https://www.marcosymarcos.mx/producto/marco-plata/''"

definition plata_data :: "real product_data" where
  "plata_data =
     \<lparr> d_id = Some (py ''MP-5''), d_name = title_plata, d_width_cm = Some 5,
       d_color = py ''#c0c0c0'', d_style = py ''metal'',
       d_img_url = Some (py ''https://www.marcosymarcos.mx/img/mp5.jpg'') \<rparr>"

definition failing_env :: img_env where
  "failing_env = \<lparr> img_get = Inl RequestException, img_write = None \<rparr>"

definition ok_env :: img_env where
  "ok_env = \<lparr> img_get = Inr \<lparr> status_code = 200, content = [255, 216, 255] \<rparr>, img_write = None \<rparr>"

text \<open>
  Four links: the product page above, whose image downloads; a second page with the same
  SKU, another title and a failing download; a page without SKU element and without a
  width in its title, named by its URL, whose image fails to download; and a page without
  SKU element whose URL ends in a segment with no character of the identifier class.
\<close>

definition plata_item :: item where
  "plata_item = \<lparr> it_url = plata_url, it_page = Inr plata_soup, it_img = ok_env \<rparr>"

definition dup_soup :: soup where
  "dup_soup sel =
     (case sel of
        Sel_title \<Rightarrow> Some \<lparr> get_text = py ''Marco Negro 2 cm'', get_attr = (\<lambda>k. None) \<rparr>
      | Sel_sku \<Rightarrow> Some \<lparr> get_text = py ''MP-5'', get_attr = (\<lambda>k. None) \<rparr>
      | _ \<Rightarrow> None)"

definition dup_item :: item where
  "dup_item =
     \<lparr> it_url = py ''https://www.marcosymarcos.mx/producto/marco-negro/'',
       it_page = Inr dup_soup, it_img = failing_env \<rparr>"

definition liso_soup :: soup where
  "liso_soup sel =
     (case sel of
        Sel_title \<Rightarrow> Some \<lparr> get_text = py ''Marco Liso'', get_attr = (\<lambda>k. None) \<rparr>
      | Sel_og_image \<Rightarrow>
          Some \<lparr> get_text = [],
                 get_attr = (\<lambda>k. if k = py ''content'' then Some (py ''/img/liso.jpg'') else None) \<rparr>
      | _ \<Rightarrow> None)"

definition liso_item :: item where
  "liso_item =
     \<lparr> it_url = py ''https://www.marcosymarcos.mx/producto/marco-liso/'',
       it_page = Inr liso_soup, it_img = failing_env \<rparr>"

definition nameless_item :: item where
  "nameless_item =
     \<lparr> it_url = py ''https://www.marcosymarcos.mx/producto/'' @ [241] @ py ''/'',
       it_page = Inr (\<lambda>sel. None), it_img = ok_env \<rparr>"

definition plata_rec :: "real json_object" where
  "plata_rec =
     [(py ''id'', JString (py ''MP-5'')),
      (py ''name'', JString title_plata),
      (py ''width_cm'', JNumber 5),
      (py ''color'', JString (py ''#c0c0c0'')),
      (py ''style'', JString (py ''metal'')),
      (py ''img'', JString (py ''img/molduras/MP-5.jpg''))]"

definition liso_rec :: "real json_object" where
  "liso_rec =
     [(py ''id'', JString (py ''MARCO_LISO'')),
      (py ''name'', JString (py ''Marco Liso'')),
      (py ''width_cm'', JNull),
      (py ''color'', JString (py ''#555555'')),
      (py ''style'', JString (py ''grain'')),
      (py ''img'', JNull)]"

text \<open>A run over two categories.\<close>

definition sample_run :: "(exn + item list) list" where
  "sample_run = [Inr [plata_item, dup_item], Inr [liso_item, nameless_item]]"

section \<open>Properties of the string helpers\<close>

lemma startswith_prefix: "startswith s k \<longleftrightarrow> prefix k s"
  by (induction s k rule: startswith.induct) auto

lemma contains_sublist: "contains t k \<longleftrightarrow> sublist k t"
proof (induction t)
  case Nil
  then show ?case by auto
next
  case (Cons c cs)
  then show ?case by (simp add: startswith_prefix sublist_Cons_right)
qed

section \<open>The colour of a name\<close>

lemma scan_color_first:
  "i < length tbl \<Longrightarrow> contains t (fst (tbl ! i)) \<Longrightarrow>
   (\<forall>j<i. \<not> contains t (fst (tbl ! j))) \<Longrightarrow> scan_color tbl t c = snd (tbl ! i)"
proof (induction tbl arbitrary: i)
  case Nil
  then show ?case by simp
next
  case (Cons kv tbl)
  obtain k v where kv: "kv = (k, v)" by (cases kv)
  show ?case
  proof (cases i)
    case 0
    with Cons.prems kv show ?thesis by simp
  next
    case (Suc n)
    from Cons.prems(3) Suc have "\<not> contains t (fst ((kv # tbl) ! 0))" by blast
    then have nk: "\<not> contains t k" using kv by simp
    have "scan_color tbl t c = snd (tbl ! n)"
    proof (rule Cons.IH)
      show "n < length tbl" using Cons.prems(1) Suc by simp
      show "contains t (fst (tbl ! n))" using Cons.prems(2) Suc by simp
      show "\<forall>j<n. \<not> contains t (fst (tbl ! j))"
      proof (intro allI impI)
        fix j assume "j < n"
        then have "Suc j < i" using Suc by simp
        with Cons.prems(3) have "\<not> contains t (fst ((kv # tbl) ! Suc j))" by blast
        then show "\<not> contains t (fst (tbl ! j))" by simp
      qed
    qed
    with nk kv Suc show ?thesis by simp
  qed
qed

lemma scan_color_none:
  "(\<forall>k \<in> set (map fst tbl). \<not> contains t k) \<Longrightarrow> scan_color tbl t c = c"
  by (induction tbl) auto

lemma guess_color_eq:
  "snd (guess_style_and_color L name) =
     scan_color mapc (str_lower L (or_empty name)) (py ''#555555'')"
  by (simp add: guess_style_and_color_def Let_def)

text \<open>
  C4. The keys of the table are, in order, negro, blanco, nogal, caoba, chocolate, natural,
  maple, wengue, roble, azul, gris, plata, dorado, oro, bronce, marfil. For every name, with
  \<open>t\<close> the lowercased name: when the \<open>i\<close>-th keyword is a substring of \<open>t\<close> and no earlier
  keyword of the table is, the colour is the hex value paired with the \<open>i\<close>-th keyword; when
  no keyword of the table is a substring of \<open>t\<close>, the colour is the gray \<open>#555555\<close>.
\<close>

theorem guess_color_first_keyword:
  "map fst mapc =
     map py [''negro'', ''blanco'', ''nogal'', ''caoba'', ''chocolate'', ''natural'', ''maple'',
             ''wengue'', ''roble'', ''azul'', ''gris'', ''plata'', ''dorado'', ''oro'', ''bronce'',
             ''marfil'']
   \<and> (\<forall>i<length mapc.
         sublist (fst (mapc ! i)) (str_lower L (or_empty name)) \<and>
         (\<forall>j<i. \<not> sublist (fst (mapc ! j)) (str_lower L (or_empty name)))
         \<longrightarrow> snd (guess_style_and_color L name) = snd (mapc ! i))
   \<and> ((\<forall>k \<in> set (map fst mapc). \<not> sublist k (str_lower L (or_empty name)))
         \<longrightarrow> snd (guess_style_and_color L name) = py ''#555555'')"
proof (intro conjI allI impI)
  show "map fst mapc =
     map py [''negro'', ''blanco'', ''nogal'', ''caoba'', ''chocolate'', ''natural'', ''maple'',
             ''wengue'', ''roble'', ''azul'', ''gris'', ''plata'', ''dorado'', ''oro'', ''bronce'',
             ''marfil'']"
    by (simp add: mapc_def)
next
  fix i
  assume i: "i < length mapc"
    and h: "sublist (fst (mapc ! i)) (str_lower L (or_empty name)) \<and>
            (\<forall>j<i. \<not> sublist (fst (mapc ! j)) (str_lower L (or_empty name)))"
  from i h show "snd (guess_style_and_color L name) = snd (mapc ! i)"
    unfolding guess_color_eq by (intro scan_color_first) (simp_all add: contains_sublist)
next
  assume "\<forall>k \<in> set (map fst mapc). \<not> sublist k (str_lower L (or_empty name))"
  then show "snd (guess_style_and_color L name) = py ''#555555''"
    unfolding guess_color_eq by (intro scan_color_none) (simp add: contains_sublist)
qed

theorem guess_color_first_keyword_witness:
  "snd (guess_style_and_color latin1_lib (Some (py ''Marco Nogal NEGRO''))) = py ''#111111''
   \<and> snd (guess_style_and_color latin1_lib (Some (py ''Marco Liso''))) = py ''#555555''"
proof
  have a: "(0::nat) < length mapc" by (simp add: mapc_def)
  have b: "sublist (fst (mapc ! 0))
             (str_lower latin1_lib (or_empty (Some (py ''Marco Nogal NEGRO''))))"
    unfolding contains_sublist [symmetric] by code_simp
  have c: "snd (mapc ! 0) = py ''#111111''" by (simp add: mapc_def)
  from guess_color_first_keyword [of latin1_lib "Some (py ''Marco Nogal NEGRO'')"] a b c
  show "snd (guess_style_and_color latin1_lib (Some (py ''Marco Nogal NEGRO''))) = py ''#111111''"
    by auto
next
  have d: "\<forall>k \<in> set (map fst mapc).
             \<not> sublist k (str_lower latin1_lib (or_empty (Some (py ''Marco Liso''))))"
    unfolding contains_sublist [symmetric] by code_simp
  from guess_color_first_keyword [of latin1_lib "Some (py ''Marco Liso'')"] d
  show "snd (guess_style_and_color latin1_lib (Some (py ''Marco Liso''))) = py ''#555555''"
    by blast
qed

section \<open>The run as a fold over the links\<close>

lemma process_link_entry:
  "process_link L ps it = (case entry L it of None \<Rightarrow> ps | Some kv \<Rightarrow> add_new ps kv)"
proof (cases "extract_product L (it_page it) (it_url it)")
  case (Inl e)
  then show ?thesis by (simp add: process_link_def entry_def resolve_def)
next
  case (Inr data)
  show ?thesis
  proof (cases "truthy (d_id data)")
    case False
    with Inr show ?thesis by (simp add: process_link_def entry_def resolve_def)
  next
    case True
    obtain b fx where dl: "download_image (it_img it) (d_img_url data) (img_path_of (or_empty (d_id data))) = (Inr b, fx)"
      by (cases "download_image (it_img it) (d_img_url data) (img_path_of (or_empty (d_id data)))")
         (auto simp: download_image_def split: if_splits prod.splits sum.splits)
    with Inr True show ?thesis
      by (auto simp: process_link_def entry_def resolve_def add_new_def Let_def download_ok_def)
  qed
qed

lemma run_links_foldl:
  "run_links L ps its = foldl add_new ps (List.map_filter (entry L) its)"
proof (induction its arbitrary: ps)
  case Nil
  then show ?case by (simp add: List.map_filter_simps)
next
  case (Cons it its)
  then show ?case
    by (cases "entry L it") (simp_all add: List.map_filter_simps process_link_entry)
qed

lemma add_new_distinct:
  "distinct (map fst ps) \<Longrightarrow> distinct (map fst (add_new ps kv))"
  by (simp add: add_new_def)

lemma foldl_add_new_distinct:
  "distinct (map fst ps) \<Longrightarrow> distinct (map fst (foldl add_new ps es))"
  by (induction es arbitrary: ps) (simp_all add: add_new_distinct)

lemma foldl_add_new_map_of:
  "map_of (foldl add_new ps es) = map_of (ps @ es)"
proof (induction es arbitrary: ps)
  case Nil
  then show ?case by simp
next
  case (Cons kv es)
  show ?case
  proof (cases "fst kv \<in> set (map fst ps)")
    case True
    then have "map_of ps (fst kv) \<noteq> None"
      by (simp add: map_of_eq_None_iff)
    then have "map_of (ps @ kv # es) = map_of (ps @ es)"
      by (cases kv) (auto simp: map_add_def fun_eq_iff split: option.splits)
    with True Cons show ?thesis by (simp add: add_new_def)
  next
    case False
    with Cons show ?thesis by (simp add: add_new_def)
  qed
qed

lemma add_new_old: "fst kv \<in> set (map fst ps) \<Longrightarrow> add_new ps kv = ps"
  by (simp add: add_new_def)

lemma add_new_fresh: "fst kv \<notin> set (map fst ps) \<Longrightarrow> add_new ps kv = ps @ [kv]"
  by (simp add: add_new_def)

lemma foldl_add_new_subseq:
  "\<exists>ys. foldl add_new ps es = ps @ ys \<and> subseq ys es"
proof (induction es arbitrary: ps)
  case Nil
  then show ?case by simp
next
  case (Cons kv es)
  show ?case
  proof (cases "fst kv \<in> set (map fst ps)")
    case True
    from Cons [of ps] obtain ys where ys: "foldl add_new ps es = ps @ ys" "subseq ys es" by blast
    have "foldl add_new ps (kv # es) = ps @ ys" using True ys by (simp add: add_new_old)
    moreover have "subseq ys (kv # es)" using ys(2) by (rule list_emb_Cons)
    ultimately show ?thesis by blast
  next
    case False
    from Cons [of "ps @ [kv]"] obtain ys where
      ys: "foldl add_new (ps @ [kv]) es = (ps @ [kv]) @ ys" "subseq ys es" by blast
    have "foldl add_new ps (kv # es) = ps @ (kv # ys)" using False ys by (simp add: add_new_fresh)
    moreover have "subseq (kv # ys) (kv # es)" using ys by simp
    ultimately show ?thesis by blast
  qed
qed

lemma run_categories_links:
  "run_categories L ps cats = Inr ps' \<Longrightarrow> ps' = run_links L ps (all_links cats)"
proof (induction cats arbitrary: ps)
  case Nil
  then show ?case by simp
next
  case (Cons cat cats)
  show ?case
  proof (cases cat)
    case (Inl e)
    with Cons.prems show ?thesis by simp
  next
    case (Inr links)
    with Cons.prems have "run_categories L (run_links L ps links) cats = Inr ps'" by simp
    then have "ps' = run_links L (run_links L ps links) (all_links cats)" by (rule Cons.IH)
    with Inr show ?thesis by (simp add: run_links_foldl List.map_filter_def)
  qed
qed

lemma run_categories_total:
  "(\<forall>c \<in> set cats. \<exists>links. c = Inr links) \<Longrightarrow> \<exists>ps'. run_categories L ps cats = Inr ps'"
  by (induction cats arbitrary: ps) auto

lemma run_categories_raises:
  "run_categories L ps cats = Inl e \<Longrightarrow> Inl e \<in> set cats"
  by (induction cats arbitrary: ps) (auto split: sum.splits)

section \<open>Identifiers and records of the output\<close>

lemma filter_dropWhile_not:
  "filter P (dropWhile (\<lambda>x. \<not> P x) xs) = filter P xs"
  by (induction xs) auto

lemma re_sub_invalid_filter: "re_sub_invalid t = filter id_char t"
  by (induction t rule: re_sub_invalid.induct) (simp_all add: filter_dropWhile_not)

lemma clean_id_filter:
  "clean_id L text =
     (if filter id_char (str_upper L (strip_class (str_isspace L) (or_empty text))) = [] then None
      else Some (filter id_char (str_upper L (strip_class (str_isspace L) (or_empty text)))))"
  by (simp add: clean_id_def Let_def re_sub_invalid_filter)

lemma clean_id_Some: "clean_id L text = Some s \<Longrightarrow> s \<noteq> [] \<and> list_all id_char s"
  by (auto simp: clean_id_filter list_all_iff split: if_splits)

lemma truthy_clean_id: "truthy (clean_id L text) \<longleftrightarrow> clean_id L text \<noteq> None"
  by (auto simp: truthy_def dest: clean_id_Some split: option.splits)

lemma extract_product_id:
  "extract_product L (Inr soup) url = Inr d \<Longrightarrow>
   d_id d = (case clean_id L (case soup Sel_sku of None \<Rightarrow> None | Some el \<Rightarrow> Some (get_text el)) of
               None \<Rightarrow> clean_id L (Some (slug_from_url L url))
             | Some s \<Rightarrow> Some s)"
  by (auto simp: extract_product_def Let_def truthy_clean_id split: sum.splits option.splits)

lemma extract_product_id_chars:
  assumes "extract_product L page url = Inr d" "d_id d = Some pid"
  shows "pid \<noteq> [] \<and> list_all id_char pid"
proof -
  from assms(1) obtain soup where p: "page = Inr soup"
    by (cases page) (simp_all add: extract_product_def)
  from extract_product_id [of L soup url d] assms(1) p
  have "\<exists>x. clean_id L x = d_id d" by (auto split: option.splits)
  then obtain x where "clean_id L x = Some pid" using assms(2) by auto
  then show ?thesis by (rule clean_id_Some)
qed

lemma resolve_Some:
  "resolve L it = Some (pid, d) \<longleftrightarrow>
     extract_product L (it_page it) (it_url it) = Inr d \<and> d_id d = Some pid \<and> pid \<noteq> []"
  by (auto simp: resolve_def truthy_def or_empty_def split: sum.splits option.splits)

lemma entry_Some:
  "entry L it = Some (pid, r) \<longleftrightarrow>
     (\<exists>d. resolve L it = Some (pid, d) \<and> r = make_rec d pid (download_ok it d pid))"
  by (auto simp: entry_def split: option.splits)

lemma main_output:
  assumes "main L cats = Inr out"
  shows "\<exists>ps. out = map snd ps \<and> distinct (map fst ps)
           \<and> subseq ps (List.map_filter (entry L) (all_links cats))
           \<and> map_of ps = map_of (List.map_filter (entry L) (all_links cats))"
proof -
  from assms obtain ps where rc: "run_categories L [] cats = Inr ps" and out: "out = map snd ps"
    by (auto simp: main_def split: sum.splits)
  from run_categories_links [OF rc]
  have ps: "ps = foldl add_new [] (List.map_filter (entry L) (all_links cats))"
    by (simp add: run_links_foldl)
  have "distinct (map fst ps)" unfolding ps by (rule foldl_add_new_distinct) simp
  moreover have "subseq ps (List.map_filter (entry L) (all_links cats))"
    using foldl_add_new_subseq [of "[]" "List.map_filter (entry L) (all_links cats)"] ps by auto
  moreover have "map_of ps = map_of (List.map_filter (entry L) (all_links cats))"
    unfolding ps by (simp add: foldl_add_new_map_of)
  ultimately show ?thesis using out by blast
qed

lemma map_filter_mem:
  "y \<in> set (List.map_filter f xs) \<longleftrightarrow> (\<exists>x \<in> set xs. f x = Some y)"
  by (induction xs) (auto simp: List.map_filter_simps split: option.splits)

lemma subseq_entries_mem:
  assumes "subseq ps (List.map_filter (entry L) its)" "(pid, r) \<in> set ps"
  shows "\<exists>it \<in> set its. entry L it = Some (pid, r)"
proof -
  from assms obtain y where "y \<in> set (List.map_filter (entry L) its)" "(pid, r) = y"
    by (rule list_emb_set)
  then show ?thesis by (auto simp: map_filter_mem)
qed

lemma main_output_mem:
  assumes "main L cats = Inr out" "r \<in> set out"
  shows "\<exists>it \<in> set (all_links cats). \<exists>pid d.
           extract_product L (it_page it) (it_url it) = Inr d \<and> d_id d = Some pid \<and> pid \<noteq> []
           \<and> r = make_rec d pid (download_ok it d pid)"
proof -
  from main_output [OF assms(1)] obtain ps where
    ps: "out = map snd ps" "subseq ps (List.map_filter (entry L) (all_links cats))" by blast
  from assms(2) ps(1) obtain pid where "(pid, r) \<in> set ps" by auto
  with ps(2) obtain it where "it \<in> set (all_links cats)" "entry L it = Some (pid, r)"
    using subseq_entries_mem by blast
  then show ?thesis by (auto simp: entry_Some resolve_Some)
qed

lemma make_rec_keys:
  "map fst (make_rec d pid ok) =
     map py [''id'', ''name'', ''width_cm'', ''color'', ''style'', ''img'']"
  by (simp add: make_rec_def)

lemma make_rec_lookup:
  "map_of (make_rec d pid ok) (py ''id'') = Some (JString pid)"
  "map_of (make_rec d pid ok) (py ''name'') = Some (JString (d_name d))"
  "map_of (make_rec d pid ok) (py ''width_cm'') = Some (json_opt_num (d_width_cm d))"
  "map_of (make_rec d pid ok) (py ''color'') = Some (JString (d_color d))"
  "map_of (make_rec d pid ok) (py ''style'') = Some (JString (d_style d))"
  "map_of (make_rec d pid ok) (py ''img'') = Some (if ok then JString (img_path_of pid) else JNull)"
  by (simp_all add: make_rec_def py_def)

section \<open>download\_image reports failure\<close>

text \<open>
  C7. \<open>download_image\<close> always returns a boolean and never an exception. For a null or
  empty URL it returns \<open>False\<close> and makes no network request. Whatever exception the
  request, the status check or the writing of the file raises, the result is \<open>False\<close>.
  The result is \<open>True\<close> exactly when the URL is non-empty, the request gives a response
  whose status is not an error, and the file is written.
\<close>

theorem download_image_never_raises:
  "(\<exists>ok. fst (download_image env url path) = Inr ok)
   \<and> (\<not> truthy url \<longrightarrow> download_image env url path = (Inr False, []))
   \<and> (\<forall>e. truthy url \<and> fst (download_try env (or_empty url) path) = Inl e
          \<longrightarrow> fst (download_image env url path) = Inr False)
   \<and> (fst (download_image env url path) = Inr True \<longleftrightarrow>
        truthy url \<and> img_write env = None \<and>
        (\<exists>r. img_get env = Inr r \<and> \<not> (400 \<le> status_code r \<and> status_code r < 600)))"
proof (intro conjI allI impI)
  show "\<exists>ok. fst (download_image env url path) = Inr ok"
    by (auto simp: download_image_def split: prod.splits sum.splits)
  show "download_image env url path = (Inr False, [])" if "\<not> truthy url"
    using that by (simp add: download_image_def)
  show "fst (download_image env url path) = Inr False"
    if "truthy url \<and> fst (download_try env (or_empty url) path) = Inl e" for e
    using that by (auto simp: download_image_def split: prod.splits sum.splits)
  show "fst (download_image env url path) = Inr True \<longleftrightarrow>
        truthy url \<and> img_write env = None \<and>
        (\<exists>r. img_get env = Inr r \<and> \<not> (400 \<le> status_code r \<and> status_code r < 600))"
    by (cases "img_get env"; cases "img_write env")
       (auto simp: download_image_def download_try_def)
qed

theorem download_image_never_raises_witness:
  "download_image failing_env None (py ''img/molduras/A.jpg'') = (Inr False, [])
   \<and> fst (download_image failing_env (Some (py ''https://x/a.jpg'')) (py ''img/molduras/A.jpg''))
       = Inr False"
proof
  have "\<not> truthy None" by (simp add: truthy_def)
  with download_image_never_raises [of failing_env None "py ''img/molduras/A.jpg''"]
  show "download_image failing_env None (py ''img/molduras/A.jpg'') = (Inr False, [])"
    by blast
next
  have t: "truthy (Some (py ''https://x/a.jpg''))" by (simp add: truthy_def py_def)
  have f: "fst (download_try failing_env (or_empty (Some (py ''https://x/a.jpg'')))
             (py ''img/molduras/A.jpg'')) = Inl RequestException"
    by (simp add: download_try_def failing_env_def)
  from download_image_never_raises
         [of failing_env "Some (py ''https://x/a.jpg'')" "py ''img/molduras/A.jpg''"] t f
  show "fst (download_image failing_env (Some (py ''https://x/a.jpg'')) (py ''img/molduras/A.jpg''))
       = Inr False"
    by blast
qed

section \<open>The order of the image sources\<close>

lemma sel_join_if:
  "(case soup sel of None \<Rightarrow> Inr u | Some e \<Rightarrow> join_if L (get_attr e k) u) =
     (if attr_of soup sel k = [] then Inr u
      else (case urljoin_base L (attr_of soup sel k) of Inl e \<Rightarrow> Inl e | Inr w \<Rightarrow> Inr (Some w)))"
  by (simp add: attr_of_def join_if_def or_empty_def split: option.splits)

lemma sel_join_if_or:
  "(case soup sel of None \<Rightarrow> Inr u
    | Some e \<Rightarrow> join_if L (py_or (get_attr e k1) (get_attr e k2)) u) =
     (if (if attr_of soup sel k1 \<noteq> [] then attr_of soup sel k1 else attr_of soup sel k2) = []
      then Inr u
      else (case urljoin_base L
                  (if attr_of soup sel k1 \<noteq> [] then attr_of soup sel k1 else attr_of soup sel k2) of
              Inl e \<Rightarrow> Inl e | Inr w \<Rightarrow> Inr (Some w)))"
  by (simp add: attr_of_def join_if_def or_empty_def py_or_def truthy_def split: option.splits)

lemma extract_img_url_eq:
  assumes nz: "\<forall>u. u \<noteq> [] \<longrightarrow> urljoin_base L u \<noteq> Inr []"
  shows "extract_img_url L soup =
           (case find (\<lambda>v. v \<noteq> []) (image_sources soup) of
              None \<Rightarrow> Inr None
            | Some v \<Rightarrow> (case urljoin_base L v of Inl e \<Rightarrow> Inl e | Inr u \<Rightarrow> Inr (Some u)))"
proof -
  define a where "a = attr_of soup Sel_og_image (py ''content'')"
  define b where "b = (if attr_of soup Sel_gallery_img (py ''data-large_image'') \<noteq> []
       then attr_of soup Sel_gallery_img (py ''data-large_image'')
       else attr_of soup Sel_gallery_img (py ''src''))"
  define c where "c = attr_of soup Sel_wp_post_image (py ''src'')"
  have src: "image_sources soup = [a, b, c]"
    by (simp add: image_sources_def a_def b_def c_def)
  have tr: "truthy (Some w)" if "urljoin_base L v = Inr w" "v \<noteq> []" for v w
    using nz that by (auto simp: truthy_def)
  have nt: "\<not> truthy None" by (simp add: truthy_def)
  have E: "extract_img_url L soup =
     (case (if a = [] then Inr None
            else (case urljoin_base L a of Inl e \<Rightarrow> Inl e | Inr w \<Rightarrow> Inr (Some w))) of
        Inl e \<Rightarrow> Inl e
      | Inr img_url \<Rightarrow>
     (case (if \<not> truthy img_url
            then (if b = [] then Inr img_url
                  else (case urljoin_base L b of Inl e \<Rightarrow> Inl e | Inr w \<Rightarrow> Inr (Some w)))
            else Inr img_url) of
        Inl e \<Rightarrow> Inl e
      | Inr img_url \<Rightarrow>
          if \<not> truthy img_url
          then (if c = [] then Inr img_url
                else (case urljoin_base L c of Inl e \<Rightarrow> Inl e | Inr w \<Rightarrow> Inr (Some w)))
          else Inr img_url))"
    unfolding extract_img_url_def sel_join_if sel_join_if_or a_def b_def c_def ..
  show ?thesis
  proof (cases "a = []")
    case False
    then show ?thesis
      using tr [of a] by (cases "urljoin_base L a") (simp_all add: E src)
  next
    case a: True
    show ?thesis
    proof (cases "b = []")
      case False
      then show ?thesis
        using tr [of b] a nt by (cases "urljoin_base L b") (simp_all add: E src)
    next
      case b: True
      show ?thesis
      proof (cases "c = []")
        case False
        then show ?thesis
          using a b nt by (cases "urljoin_base L c") (simp_all add: E src)
      next
        case True
        then show ?thesis using a b nt by (simp add: E src)
      qed
    qed
  qed
qed

lemma extract_product_img:
  "extract_product L (Inr soup) url = Inr d \<Longrightarrow> extract_img_url L soup = Inr (d_img_url d)"
  by (auto simp: extract_product_def Let_def split: sum.splits)

lemma extract_product_returns:
  "extract_img_url L soup = Inr u \<Longrightarrow>
   \<exists>d. extract_product L (Inr soup) url = Inr d \<and> d_img_url d = u"
  by (simp add: extract_product_def Let_def)

lemma extract_product_raises:
  "extract_img_url L soup = Inl e \<Longrightarrow> extract_product L (Inr soup) url = Inl e"
  by (simp add: extract_product_def Let_def)

lemma simple_urljoin_nonempty: "u \<noteq> [] \<Longrightarrow> simple_urljoin u \<noteq> Inr []"
  by (simp add: simple_urljoin_def BASE_def py_def)

lemma latin1_urljoin: "urljoin_base latin1_lib = simple_urljoin"
  by (simp add: latin1_lib_def)

text \<open>
  C1. Provided \<open>urljoin(BASE, u)\<close> is never the empty string for a non-empty \<open>u\<close> (as
  holds of the library, whose base is non-empty): the image URL of a page comes from the
  first non-empty value among the Open Graph \<open>content\<close>, the gallery image's
  \<open>data-large_image\<close> or else \<open>src\<close>, and the featured image's \<open>src\<close>, in this order,
  joined to the base; it is null when none of them is non-empty. For every page that was
  fetched, \<open>extract_product\<close> returns a record, and the record holds this URL; the one
  exception is that joining the chosen value raises, and then \<open>extract_product\<close> raises
  that exception.
\<close>

theorem extract_img_url_order:
  assumes "\<forall>u. u \<noteq> [] \<longrightarrow> urljoin_base L u \<noteq> Inr []"
  shows "extract_img_url L soup =
           (case find (\<lambda>v. v \<noteq> []) (image_sources soup) of
              None \<Rightarrow> Inr None
            | Some v \<Rightarrow> (case urljoin_base L v of Inl e \<Rightarrow> Inl e | Inr u \<Rightarrow> Inr (Some u)))
         \<and> (\<forall>url d. extract_product L (Inr soup) url = Inr d \<longrightarrow>
               (case find (\<lambda>v. v \<noteq> []) (image_sources soup) of
                  None \<Rightarrow> d_img_url d = None
                | Some v \<Rightarrow> \<exists>u. urljoin_base L v = Inr u \<and> d_img_url d = Some u))
         \<and> (\<forall>url.
               (case find (\<lambda>v. v \<noteq> []) (image_sources soup) of
                  None \<Rightarrow> \<exists>d. extract_product L (Inr soup) url = Inr d \<and> d_img_url d = None
                | Some v \<Rightarrow>
                    (case urljoin_base L v of
                       Inl e \<Rightarrow> extract_product L (Inr soup) url = Inl e
                     | Inr u \<Rightarrow>
                         \<exists>d. extract_product L (Inr soup) url = Inr d \<and> d_img_url d = Some u)))"
proof (intro conjI allI impI)
  show "extract_img_url L soup =
           (case find (\<lambda>v. v \<noteq> []) (image_sources soup) of
              None \<Rightarrow> Inr None
            | Some v \<Rightarrow> (case urljoin_base L v of Inl e \<Rightarrow> Inl e | Inr u \<Rightarrow> Inr (Some u)))"
    using assms by (rule extract_img_url_eq)
next
  fix url d
  assume "extract_product L (Inr soup) url = Inr d"
  then have "extract_img_url L soup = Inr (d_img_url d)" by (rule extract_product_img)
  then show "case find (\<lambda>v. v \<noteq> []) (image_sources soup) of
                  None \<Rightarrow> d_img_url d = None
                | Some v \<Rightarrow> \<exists>u. urljoin_base L v = Inr u \<and> d_img_url d = Some u"
    unfolding extract_img_url_eq [OF assms]
    by (auto split: option.splits sum.splits)
next
  fix url
  show "case find (\<lambda>v. v \<noteq> []) (image_sources soup) of
          None \<Rightarrow> \<exists>d. extract_product L (Inr soup) url = Inr d \<and> d_img_url d = None
        | Some v \<Rightarrow>
            (case urljoin_base L v of
               Inl e \<Rightarrow> extract_product L (Inr soup) url = Inl e
             | Inr u \<Rightarrow> \<exists>d. extract_product L (Inr soup) url = Inr d \<and> d_img_url d = Some u)"
  proof (cases "find (\<lambda>v. v \<noteq> []) (image_sources soup)")
    case None
    then have "extract_img_url L soup = Inr None" by (simp add: extract_img_url_eq [OF assms])
    from extract_product_returns [OF this, of url] None show ?thesis by simp
  next
    case (Some v)
    show ?thesis
    proof (cases "urljoin_base L v")
      case (Inl e)
      with Some have "extract_img_url L soup = Inl e" by (simp add: extract_img_url_eq [OF assms])
      from extract_product_raises [OF this, of url] Some Inl show ?thesis by simp
    next
      case (Inr u)
      with Some have "extract_img_url L soup = Inr (Some u)"
        by (simp add: extract_img_url_eq [OF assms])
      from extract_product_returns [OF this, of url] Some Inr show ?thesis by simp
    qed
  qed
qed

theorem extract_img_url_order_witness:
  "extract_img_url latin1_lib gallery_soup = Inr (Some (py ''https://www.marcosymarcos.mx/g.jpg''))
   \<and> (\<exists>d. extract_product latin1_lib (Inr gallery_soup) plata_url = Inr d
          \<and> d_img_url d = Some (py ''https://www.marcosymarcos.mx/g.jpg''))"
proof -
  have h: "\<forall>u. u \<noteq> [] \<longrightarrow> urljoin_base latin1_lib u \<noteq> Inr []"
    by (simp add: latin1_urljoin simple_urljoin_nonempty)
  have f: "find (\<lambda>v. v \<noteq> []) (image_sources gallery_soup) = Some (py ''/g.jpg'')"
    by (simp add: image_sources_def attr_of_def gallery_soup_def or_empty_def py_def)
  have j: "urljoin_base latin1_lib (py ''/g.jpg'') = Inr (py ''https://www.marcosymarcos.mx/g.jpg'')"
    by (simp add: latin1_urljoin simple_urljoin_def BASE_def py_def)
  from extract_img_url_order [OF h, of gallery_soup]
  have a: "extract_img_url latin1_lib gallery_soup
             = Inr (Some (py ''https://www.marcosymarcos.mx/g.jpg''))"
    by (simp add: f j)
  from extract_img_url_order [OF h, of gallery_soup]
  have "case find (\<lambda>v. v \<noteq> []) (image_sources gallery_soup) of
          None \<Rightarrow> \<exists>d. extract_product latin1_lib (Inr gallery_soup) plata_url = Inr d
                      \<and> d_img_url d = None
        | Some v \<Rightarrow>
            (case urljoin_base latin1_lib v of
               Inl e \<Rightarrow> extract_product latin1_lib (Inr gallery_soup) plata_url = Inl e
             | Inr u \<Rightarrow> \<exists>d. extract_product latin1_lib (Inr gallery_soup) plata_url = Inr d
                            \<and> d_img_url d = Some u)"
    by blast
  then have b: "\<exists>d. extract_product latin1_lib (Inr gallery_soup) plata_url = Inr d
                  \<and> d_img_url d = Some (py ''https://www.marcosymarcos.mx/g.jpg'')"
    by (simp add: f j)
  from a b show ?thesis by blast
qed

section \<open>The title with a metallic keyword\<close>

lemma style_eq:
  "fst (guess_style_and_color L name) =
     (if \<exists>k \<in> set metal_keywords. sublist k (str_lower L (or_empty name))
      then py ''metal'' else py ''grain'')"
  by (simp add: guess_style_and_color_def Let_def list_ex_iff contains_sublist)

lemma extract_product_title:
  "soup Sel_title = Some el \<Longrightarrow> extract_product L (Inr soup) url = Inr d \<Longrightarrow>
   d_name d = get_text el \<and> d_width_cm d = parse_width_cm L (Some (get_text el))
   \<and> d_color d = snd (guess_style_and_color L (Some (get_text el)))
   \<and> d_style d = fst (guess_style_and_color L (Some (get_text el)))"
  by (auto simp: extract_product_def Let_def split: sum.splits)

lemma title_plata_width: "parse_width_cm latin1_lib (Some title_plata) = Some 5"
  by code_simp

lemma title_plata_style_color:
  "guess_style_and_color latin1_lib (Some title_plata) = (py ''metal'', py ''#c0c0c0'')"
  by code_simp

text \<open>
  C8. For the title \<open>Marco Plata Metalico 5 cm\<close> (with its accent), under Python's tables
  for Latin-1 text: the width is 5.0, the colour is \<open>#c0c0c0\<close>, the value paired with
  \<open>plata\<close>, and the style is \<open>metal\<close>; every product page with this title is extracted
  with these three fields. For every name the style is \<open>metal\<close> when one of the metallic
  keywords is a substring of the lowercased name and the default \<open>grain\<close> otherwise;
  \<open>plata\<close> is a metallic keyword and a substring of this title in lower case.
\<close>

theorem title_plata_fields:
  "parse_width_cm latin1_lib (Some title_plata) = Some 5
   \<and> guess_style_and_color latin1_lib (Some title_plata) = (py ''metal'', py ''#c0c0c0'')
   \<and> map_of mapc (py ''plata'') = Some (py ''#c0c0c0'')
   \<and> py ''plata'' \<in> set metal_keywords
   \<and> sublist (py ''plata'') (str_lower latin1_lib title_plata)
   \<and> (\<forall>(L :: 'f pylib) name. fst (guess_style_and_color L name) =
         (if \<exists>k \<in> set metal_keywords. sublist k (str_lower L (or_empty name))
          then py ''metal'' else py ''grain''))
   \<and> (\<forall>soup el url d.
         soup Sel_title = Some el \<and> get_text el = title_plata \<and>
         extract_product latin1_lib (Inr soup) url = Inr d
         \<longrightarrow> d_width_cm d = Some 5 \<and> d_color d = py ''#c0c0c0'' \<and> d_style d = py ''metal'')"
proof (intro conjI allI impI)
  show "parse_width_cm latin1_lib (Some title_plata) = Some 5"
    by (rule title_plata_width)
  show "guess_style_and_color latin1_lib (Some title_plata) = (py ''metal'', py ''#c0c0c0'')"
    by (rule title_plata_style_color)
  show "map_of mapc (py ''plata'') = Some (py ''#c0c0c0'')" by code_simp
  show "py ''plata'' \<in> set metal_keywords" by (simp add: metal_keywords_def)
  show "sublist (py ''plata'') (str_lower latin1_lib title_plata)"
    unfolding contains_sublist [symmetric] by code_simp
  show "fst (guess_style_and_color L name) =
         (if \<exists>k \<in> set metal_keywords. sublist k (str_lower L (or_empty name))
          then py ''metal'' else py ''grain'')" for L :: "'f pylib" and name
    by (rule style_eq)
next
  fix soup el url and d :: "real product_data"
  assume h: "soup Sel_title = Some el \<and> get_text el = title_plata \<and>
         extract_product latin1_lib (Inr soup) url = Inr d"
  from h extract_product_title [of soup el latin1_lib url d]
  show "d_width_cm d = Some 5" by (simp add: title_plata_width)
  from h extract_product_title [of soup el latin1_lib url d]
  show "d_color d = py ''#c0c0c0''" by (simp add: title_plata_style_color)
  from h extract_product_title [of soup el latin1_lib url d]
  show "d_style d = py ''metal''" by (simp add: title_plata_style_color)
qed

theorem title_plata_fields_witness:
  "extract_product latin1_lib (Inr plata_soup) plata_url = Inr plata_data
   \<and> d_width_cm plata_data = Some 5 \<and> d_color plata_data = py ''#c0c0c0''
   \<and> d_style plata_data = py ''metal''"
proof -
  have e: "extract_product latin1_lib (Inr plata_soup) plata_url = Inr plata_data"
    by code_simp
  have s: "plata_soup Sel_title = Some \<lparr> get_text = title_plata, get_attr = (\<lambda>k. None) \<rparr>"
    by (simp add: plata_soup_def)
  from title_plata_fields e s
  have "d_width_cm plata_data = Some 5 \<and> d_color plata_data = py ''#c0c0c0''
        \<and> d_style plata_data = py ''metal''"
    by (metis element.select_convs(1))
  with e show ?thesis by simp
qed

section \<open>The output of a run\<close>

lemma sample_run_main: "main latin1_lib sample_run = Inr [plata_rec, liso_rec]"
  by code_simp

lemma download_ok_iff:
  "download_ok it d pid \<longleftrightarrow>
     truthy (d_img_url d) \<and> img_write (it_img it) = None \<and>
     (\<exists>r. img_get (it_img it) = Inr r \<and> \<not> (400 \<le> status_code r \<and> status_code r < 600))"
  unfolding download_ok_def
  by (cases "img_get (it_img it)"; cases "img_write (it_img it)")
     (auto simp: download_image_def download_try_def)

lemma main_output_pairs:
  assumes "main L cats = Inr out"
  shows "\<exists>ps. out = map snd ps \<and> distinct (map fst ps)
           \<and> (\<forall>(pid, r) \<in> set ps. map_of r (py ''id'') = Some (JString pid))
           \<and> subseq ps (List.map_filter (entry L) (all_links cats))
           \<and> map_of ps = map_of (List.map_filter (entry L) (all_links cats))"
proof -
  from main_output [OF assms] obtain ps where
    ps: "out = map snd ps" "distinct (map fst ps)"
        "subseq ps (List.map_filter (entry L) (all_links cats))"
        "map_of ps = map_of (List.map_filter (entry L) (all_links cats))" by blast
  have "map_of r (py ''id'') = Some (JString pid)" if "(pid, r) \<in> set ps" for pid r
  proof -
    from subseq_entries_mem [OF ps(3) that] obtain it where "entry L it = Some (pid, r)" by blast
    then show ?thesis by (auto simp: entry_Some make_rec_lookup)
  qed
  with ps show ?thesis by blast
qed

lemma pairs_distinct_ids:
  assumes "distinct (map fst ps)"
    and "\<forall>(pid, r) \<in> set ps. map_of r (py ''id'') = Some (JString pid)"
  shows "distinct (map (\<lambda>r. map_of r (py ''id'')) (map snd ps))"
proof -
  have eq: "map (\<lambda>r. map_of r (py ''id'')) (map snd ps) = map (\<lambda>k. Some (JString k)) (map fst ps)"
    using assms(2) by (induction ps) auto
  have d: "distinct (map (\<lambda>k. Some (JString k)) (map fst ps))"
    using assms(1) by (subst distinct_map) (simp add: inj_on_def)
  show ?thesis unfolding eq by (rule d)
qed

text \<open>
  C5. When \<open>main\<close> writes its output, the \<open>id\<close> values of the array are pairwise
  distinct. The array consists, in processing order, of the records of those links that are
  the first of the run to resolve to their identifier: it is a subsequence of the
  contributions of all links, and looking an identifier up in it gives the record of the
  first link with that identifier. \<open>main\<close> writes its output whenever no discovery
  raises. A link whose identifier is already in the dictionary leaves it unchanged,
  whatever its URL.
\<close>

theorem ids_unique_first_wins:
  "(main L cats = Inr out \<longrightarrow>
      distinct (map (\<lambda>r. map_of r (py ''id'')) out)
      \<and> (\<exists>ps. out = map snd ps \<and> distinct (map fst ps)
            \<and> (\<forall>(pid, r) \<in> set ps. map_of r (py ''id'') = Some (JString pid))
            \<and> subseq ps (List.map_filter (entry L) (all_links cats))
            \<and> map_of ps = map_of (List.map_filter (entry L) (all_links cats))))
   \<and> ((\<forall>c \<in> set cats. \<exists>links. c = Inr links) \<longrightarrow> (\<exists>out. main L cats = Inr out))
   \<and> (\<forall>ps it pid r. entry L it = Some (pid, r) \<and> pid \<in> set (map fst ps)
         \<longrightarrow> process_link L ps it = ps)"
proof (intro conjI allI impI)
  assume m: "main L cats = Inr out"
  from main_output_pairs [OF m] obtain ps where
    ps: "out = map snd ps" "distinct (map fst ps)"
        "\<forall>(pid, r) \<in> set ps. map_of r (py ''id'') = Some (JString pid)" by blast
  from pairs_distinct_ids [OF ps(2,3)] ps(1)
  show "distinct (map (\<lambda>r. map_of r (py ''id'')) out)" by simp
next
  assume m: "main L cats = Inr out"
  then show "\<exists>ps. out = map snd ps \<and> distinct (map fst ps)
            \<and> (\<forall>(pid, r) \<in> set ps. map_of r (py ''id'') = Some (JString pid))
            \<and> subseq ps (List.map_filter (entry L) (all_links cats))
            \<and> map_of ps = map_of (List.map_filter (entry L) (all_links cats))"
    by (rule main_output_pairs)
next
  assume "\<forall>c \<in> set cats. \<exists>links. c = Inr links"
  then obtain ps where "run_categories L [] cats = Inr ps"
    using run_categories_total by blast
  then show "\<exists>out. main L cats = Inr out" by (simp add: main_def)
next
  show "process_link L ps it = ps"
    if "entry L it = Some (pid, r) \<and> pid \<in> set (map fst ps)" for ps it pid r
    using that by (simp add: process_link_entry add_new_old)
qed

theorem ids_unique_first_wins_witness:
  "main latin1_lib sample_run = Inr [plata_rec, liso_rec]
   \<and> distinct (map (\<lambda>r. map_of r (py ''id'')) [plata_rec, liso_rec])
   \<and> process_link latin1_lib [(py ''MP-5'', plata_rec)] dup_item = [(py ''MP-5'', plata_rec)]"
proof -
  have "map_option fst (entry latin1_lib dup_item) = Some (py ''MP-5'')" by code_simp
  then obtain r where e: "entry latin1_lib dup_item = Some (py ''MP-5'', r)"
    by (cases "entry latin1_lib dup_item") auto
  have k: "py ''MP-5'' \<in> set (map fst [(py ''MP-5'', plata_rec)])" by simp
  from ids_unique_first_wins [of latin1_lib sample_run "[plata_rec, liso_rec]"]
    sample_run_main e k
  show ?thesis by blast
qed

lemma run_links_extends: "\<exists>ys. run_links L ps its = ps @ ys"
  using foldl_add_new_subseq [of ps "List.map_filter (entry L) its"]
  by (auto simp: run_links_foldl)

lemma failed_download_step:
  assumes "resolve L it = Some (pid, d) \<and> pid \<notin> set (map fst ps) \<and> \<not> download_ok it d pid"
  shows "run_links L ps (it # rest) = run_links L (ps @ [(pid, make_rec d pid False)]) rest"
proof -
  from assms have "entry L it = Some (pid, make_rec d pid False)" by (simp add: entry_def)
  with assms have "process_link L ps it = ps @ [(pid, make_rec d pid False)]"
    by (simp add: process_link_entry add_new_fresh)
  then show ?thesis by simp
qed

text \<open>
  C6, as amended. Every record of the output comes from a link of the run whose extraction
  succeeded. Its \<open>img\<close> is non-null only if the image URL is non-empty and the request
  gave a response whose status is not an error; when the download fails, \<open>img\<close> is null.
  Whatever the download did, \<open>id\<close>, \<open>name\<close>, \<open>color\<close> and \<open>style\<close> are the strings
  extracted, never null, and \<open>width_cm\<close> is the width extracted, which is null when the
  title has no width. A link with a fresh identifier whose download fails is recorded with
  a null \<open>img\<close> and these other fields: its record is in the dictionary when the loop
  ends, and the loop goes on with the remaining links.
\<close>

theorem img_only_after_download:
  "(main L cats = Inr out \<longrightarrow>
     (\<forall>r \<in> set out. \<exists>it \<in> set (all_links cats). \<exists>pid d.
         extract_product L (it_page it) (it_url it) = Inr d \<and> d_id d = Some pid
         \<and> map_of r (py ''id'') = Some (JString pid)
         \<and> map_of r (py ''name'') = Some (JString (d_name d))
         \<and> map_of r (py ''width_cm'') = Some (json_opt_num (d_width_cm d))
         \<and> map_of r (py ''color'') = Some (JString (d_color d))
         \<and> map_of r (py ''style'') = Some (JString (d_style d))
         \<and> (map_of r (py ''img'') \<noteq> Some JNull \<longrightarrow>
              truthy (d_img_url d) \<and>
              (\<exists>resp. img_get (it_img it) = Inr resp \<and>
                      \<not> (400 \<le> status_code resp \<and> status_code resp < 600)))
         \<and> (\<not> download_ok it d pid \<longrightarrow> map_of r (py ''img'') = Some JNull)))
   \<and> (\<forall>ps it rest pid d.
         resolve L it = Some (pid, d) \<and> pid \<notin> set (map fst ps) \<and> \<not> download_ok it d pid
         \<longrightarrow> run_links L ps (it # rest) = run_links L (ps @ [(pid, make_rec d pid False)]) rest
             \<and> (\<exists>ys. run_links L ps (it # rest) = ps @ (pid, make_rec d pid False) # ys)
             \<and> map_of (make_rec d pid False) (py ''img'') = Some JNull
             \<and> map_of (make_rec d pid False) (py ''id'') = Some (JString pid)
             \<and> map_of (make_rec d pid False) (py ''name'') = Some (JString (d_name d))
             \<and> map_of (make_rec d pid False) (py ''color'') = Some (JString (d_color d))
             \<and> map_of (make_rec d pid False) (py ''style'') = Some (JString (d_style d))
             \<and> map_of (make_rec d pid False) (py ''width_cm'')
                 = Some (json_opt_num (d_width_cm d)))"
proof (intro conjI allI impI ballI)
  fix r
  assume m: "main L cats = Inr out" and r: "r \<in> set out"
  from main_output_mem [OF m r] obtain it pid d where
    it: "it \<in> set (all_links cats)"
    and d: "extract_product L (it_page it) (it_url it) = Inr d" "d_id d = Some pid"
    and rec: "r = make_rec d pid (download_ok it d pid)" by blast
  have img: "map_of r (py ''img'') \<noteq> Some JNull \<longrightarrow>
              truthy (d_img_url d) \<and>
              (\<exists>resp. img_get (it_img it) = Inr resp \<and>
                      \<not> (400 \<le> status_code resp \<and> status_code resp < 600))"
    unfolding rec make_rec_lookup using download_ok_iff [of it d pid] by auto
  have nul: "\<not> download_ok it d pid \<longrightarrow> map_of r (py ''img'') = Some JNull"
    unfolding rec make_rec_lookup by simp
  show "\<exists>it \<in> set (all_links cats). \<exists>pid d.
         extract_product L (it_page it) (it_url it) = Inr d \<and> d_id d = Some pid
         \<and> map_of r (py ''id'') = Some (JString pid)
         \<and> map_of r (py ''name'') = Some (JString (d_name d))
         \<and> map_of r (py ''width_cm'') = Some (json_opt_num (d_width_cm d))
         \<and> map_of r (py ''color'') = Some (JString (d_color d))
         \<and> map_of r (py ''style'') = Some (JString (d_style d))
         \<and> (map_of r (py ''img'') \<noteq> Some JNull \<longrightarrow>
              truthy (d_img_url d) \<and>
              (\<exists>resp. img_get (it_img it) = Inr resp \<and>
                      \<not> (400 \<le> status_code resp \<and> status_code resp < 600)))
         \<and> (\<not> download_ok it d pid \<longrightarrow> map_of r (py ''img'') = Some JNull)"
    using it d img nul
    by (intro bexI [of _ it] exI [of _ pid] exI [of _ d]) (simp_all add: rec make_rec_lookup)
next
  show "run_links L ps (it # rest) = run_links L (ps @ [(pid, make_rec d pid False)]) rest"
    if "resolve L it = Some (pid, d) \<and> pid \<notin> set (map fst ps) \<and> \<not> download_ok it d pid"
    for ps it rest pid d
    using that by (rule failed_download_step)
next
  show "\<exists>ys. run_links L ps (it # rest) = ps @ (pid, make_rec d pid False) # ys"
    if h: "resolve L it = Some (pid, d) \<and> pid \<notin> set (map fst ps) \<and> \<not> download_ok it d pid"
    for ps it rest pid d
  proof -
    from run_links_extends [of L "ps @ [(pid, make_rec d pid False)]" rest] obtain ys where
      "run_links L (ps @ [(pid, make_rec d pid False)]) rest
         = (ps @ [(pid, make_rec d pid False)]) @ ys" by blast
    with failed_download_step [OF h, of rest] show ?thesis by simp
  qed
next
  show "map_of (make_rec d pid False) (py ''img'') = Some JNull" for pid and d :: "'a product_data"
    by (simp add: make_rec_lookup)
next
  show "map_of (make_rec d pid False) (py ''id'') = Some (JString pid)"
    for pid and d :: "'a product_data"
    by (simp add: make_rec_lookup)
next
  show "map_of (make_rec d pid False) (py ''name'') = Some (JString (d_name d))"
    for pid and d :: "'a product_data"
    by (simp add: make_rec_lookup)
next
  show "map_of (make_rec d pid False) (py ''color'') = Some (JString (d_color d))"
    for pid and d :: "'a product_data"
    by (simp add: make_rec_lookup)
next
  show "map_of (make_rec d pid False) (py ''style'') = Some (JString (d_style d))"
    for pid and d :: "'a product_data"
    by (simp add: make_rec_lookup)
next
  show "map_of (make_rec d pid False) (py ''width_cm'') = Some (json_opt_num (d_width_cm d))"
    for pid and d :: "'a product_data"
    by (simp add: make_rec_lookup)
qed

theorem img_only_after_download_witness:
  "main latin1_lib sample_run = Inr [plata_rec, liso_rec]
   \<and> (\<exists>it \<in> set (all_links sample_run). \<exists>resp.
         img_get (it_img it) = Inr resp \<and> \<not> (400 \<le> status_code resp \<and> status_code resp < 600))
   \<and> (\<exists>d. run_links latin1_lib [] [liso_item, nameless_item] =
            run_links latin1_lib ([] @ [(py ''MARCO_LISO'', make_rec d (py ''MARCO_LISO'') False)])
              [nameless_item])"
proof -
  have m: "main latin1_lib sample_run = Inr [plata_rec, liso_rec]" by (rule sample_run_main)
  have i: "map_of plata_rec (py ''img'') \<noteq> Some JNull" by (simp add: plata_rec_def py_def)
  have "map_option fst (resolve latin1_lib liso_item) = Some (py ''MARCO_LISO'')" by code_simp
  then obtain d where r: "resolve latin1_lib liso_item = Some (py ''MARCO_LISO'', d)"
    by (cases "resolve latin1_lib liso_item") auto
  have nd: "\<not> download_ok liso_item d (py ''MARCO_LISO'')"
    by (simp add: download_ok_iff liso_item_def failing_env_def)
  have f: "py ''MARCO_LISO'' \<notin> set (map fst ([] :: (pystr \<times> real json_object) list))" by simp
  from img_only_after_download [of latin1_lib sample_run "[plata_rec, liso_rec]"] m i
  have a: "\<exists>it \<in> set (all_links sample_run). \<exists>resp.
         img_get (it_img it) = Inr resp \<and> \<not> (400 \<le> status_code resp \<and> status_code resp < 600)"
    by fastforce
  from img_only_after_download [of latin1_lib sample_run "[plata_rec, liso_rec]"] r nd f
  have b: "run_links latin1_lib [] [liso_item, nameless_item] =
            run_links latin1_lib ([] @ [(py ''MARCO_LISO'', make_rec d (py ''MARCO_LISO'') False)])
              [nameless_item]"
    by blast
  from m a b show ?thesis by blast
qed

text \<open>
  The claim C6 as stated fails: \<open>liso_item\<close> has an image URL whose download fails, and
  its record is written with a null \<open>img\<close> and also a null \<open>width_cm\<close>, so that not all
  other fields are populated.
\<close>

theorem failed_download_null_width_counterexample:
  "main latin1_lib [Inr [plata_item, liso_item]] = Inr [plata_rec, liso_rec]
   \<and> extract_img_url latin1_lib liso_soup
       = Inr (Some (py ''https://www.marcosymarcos.mx/img/liso.jpg''))
   \<and> fst (download_image (it_img liso_item)
            (Some (py ''https://www.marcosymarcos.mx/img/liso.jpg''))
            (img_path_of (py ''MARCO_LISO''))) = Inr False
   \<and> map_of liso_rec (py ''img'') = Some JNull
   \<and> map_of liso_rec (py ''width_cm'') = Some JNull"
proof (intro conjI)
  show "main latin1_lib [Inr [plata_item, liso_item]] = Inr [plata_rec, liso_rec]"
    by code_simp
  show "extract_img_url latin1_lib liso_soup
          = Inr (Some (py ''https://www.marcosymarcos.mx/img/liso.jpg''))"
    by code_simp
  show "fst (download_image (it_img liso_item)
            (Some (py ''https://www.marcosymarcos.mx/img/liso.jpg''))
            (img_path_of (py ''MARCO_LISO''))) = Inr False"
    by code_simp
  show "map_of liso_rec (py ''img'') = Some JNull" by (simp add: liso_rec_def py_def)
  show "map_of liso_rec (py ''width_cm'') = Some JNull" by (simp add: liso_rec_def py_def)
qed

lemma unresolved_skipped:
  assumes "it_page it = Inr soup"
    and "clean_id L (case soup Sel_sku of None \<Rightarrow> None | Some el \<Rightarrow> Some (get_text el)) = None"
    and "clean_id L (Some (slug_from_url L (it_url it))) = None"
  shows "entry L it = None"
proof (cases "extract_product L (it_page it) (it_url it)")
  case (Inl e)
  then show ?thesis by (simp add: entry_def resolve_def)
next
  case (Inr d)
  with assms(1) have "extract_product L (Inr soup) (it_url it) = Inr d" by simp
  from extract_product_id [OF this] assms(2,3) have "d_id d = None" by simp
  with Inr show ?thesis by (simp add: entry_def resolve_def truthy_def)
qed

text \<open>
  C10. Every record of the output has an \<open>id\<close> that is a non-empty string of characters
  of \<open>[A-Z0-9_-]\<close>. A link whose SKU text and whose URL slug both sanitize to null
  leaves the dictionary unchanged: it never reaches the output.
\<close>

theorem output_ids_sanitized:
  "(main L cats = Inr out \<longrightarrow>
     (\<forall>r \<in> set out. \<exists>pid. map_of r (py ''id'') = Some (JString pid) \<and> pid \<noteq> []
                           \<and> list_all id_char pid))
   \<and> (\<forall>ps it soup.
         it_page it = Inr soup
         \<and> clean_id L (case soup Sel_sku of None \<Rightarrow> None | Some el \<Rightarrow> Some (get_text el)) = None
         \<and> clean_id L (Some (slug_from_url L (it_url it))) = None
         \<longrightarrow> process_link L ps it = ps)"
proof (intro conjI allI impI ballI)
  fix r
  assume m: "main L cats = Inr out" and r: "r \<in> set out"
  from main_output_mem [OF m r] obtain it pid d where
    d: "extract_product L (it_page it) (it_url it) = Inr d" "d_id d = Some pid"
    and rec: "r = make_rec d pid (download_ok it d pid)" by blast
  from extract_product_id_chars [OF d] have "pid \<noteq> [] \<and> list_all id_char pid" .
  then show "\<exists>pid. map_of r (py ''id'') = Some (JString pid) \<and> pid \<noteq> [] \<and> list_all id_char pid"
    unfolding rec make_rec_lookup by blast
next
  show "process_link L ps it = ps"
    if "it_page it = Inr soup
         \<and> clean_id L (case soup Sel_sku of None \<Rightarrow> None | Some el \<Rightarrow> Some (get_text el)) = None
         \<and> clean_id L (Some (slug_from_url L (it_url it))) = None" for ps it soup
    using that unresolved_skipped [of it soup L] by (simp add: process_link_entry)
qed

theorem output_ids_sanitized_witness:
  "main latin1_lib sample_run = Inr [plata_rec, liso_rec]
   \<and> (\<exists>pid. map_of liso_rec (py ''id'') = Some (JString pid) \<and> pid \<noteq> [] \<and> list_all id_char pid)
   \<and> process_link latin1_lib [(py ''MP-5'', plata_rec)] nameless_item = [(py ''MP-5'', plata_rec)]"
proof -
  have m: "main latin1_lib sample_run = Inr [plata_rec, liso_rec]" by (rule sample_run_main)
  have p: "it_page nameless_item = Inr (\<lambda>sel. None)" by (simp add: nameless_item_def)
  have s: "clean_id latin1_lib (case (\<lambda>sel. None) Sel_sku of None \<Rightarrow> None
                                | Some el \<Rightarrow> Some (get_text el)) = None"
    by code_simp
  have u: "clean_id latin1_lib (Some (slug_from_url latin1_lib (it_url nameless_item))) = None"
    by code_simp
  from output_ids_sanitized [of latin1_lib sample_run "[plata_rec, liso_rec]"] m
  have a: "\<exists>pid. map_of liso_rec (py ''id'') = Some (JString pid) \<and> pid \<noteq> [] \<and> list_all id_char pid"
    by simp
  from output_ids_sanitized [of latin1_lib sample_run "[plata_rec, liso_rec]"] p s u
  have b: "process_link latin1_lib [(py ''MP-5'', plata_rec)] nameless_item = [(py ''MP-5'', plata_rec)]"
    by blast
  from m a b show ?thesis by blast
qed

text \<open>
  C9, as amended. Every object of the output has exactly the keys \<open>id\<close>, \<open>name\<close>,
  \<open>width_cm\<close>, \<open>color\<close>, \<open>style\<close>, \<open>img\<close>, in this order. The values of \<open>id\<close>, \<open>name\<close>,
  \<open>color\<close> and \<open>style\<close> are always strings, never null; \<open>width_cm\<close> is a number or null,
  and \<open>img\<close> is a string or null.
\<close>

theorem output_keys_and_nulls:
  "main L cats = Inr out \<longrightarrow>
     (\<forall>r \<in> set out.
        map fst r = map py [''id'', ''name'', ''width_cm'', ''color'', ''style'', ''img'']
        \<and> (\<forall>k \<in> set (map py [''id'', ''name'', ''color'', ''style'']).
              \<exists>v. map_of r k = Some (JString v))
        \<and> (map_of r (py ''width_cm'') = Some JNull
             \<or> (\<exists>x. map_of r (py ''width_cm'') = Some (JNumber x)))
        \<and> (map_of r (py ''img'') = Some JNull
             \<or> (\<exists>v. map_of r (py ''img'') = Some (JString v))))"
proof (intro impI ballI)
  fix r
  assume m: "main L cats = Inr out" and r: "r \<in> set out"
  from main_output_mem [OF m r] obtain it pid d where
    rec: "r = make_rec d pid (download_ok it d pid)" by blast
  have w: "json_opt_num (d_width_cm d) = JNull \<or> (\<exists>x. json_opt_num (d_width_cm d) = JNumber x)"
    by (cases "d_width_cm d") (simp_all add: json_opt_num_def)
  show "map fst r = map py [''id'', ''name'', ''width_cm'', ''color'', ''style'', ''img'']
        \<and> (\<forall>k \<in> set (map py [''id'', ''name'', ''color'', ''style'']).
              \<exists>v. map_of r k = Some (JString v))
        \<and> (map_of r (py ''width_cm'') = Some JNull
             \<or> (\<exists>x. map_of r (py ''width_cm'') = Some (JNumber x)))
        \<and> (map_of r (py ''img'') = Some JNull
             \<or> (\<exists>v. map_of r (py ''img'') = Some (JString v)))"
    unfolding rec using w by (simp add: make_rec_keys make_rec_lookup)
qed

theorem output_keys_and_nulls_witness:
  "main latin1_lib sample_run = Inr [plata_rec, liso_rec]
   \<and> map fst plata_rec = map py [''id'', ''name'', ''width_cm'', ''color'', ''style'', ''img'']
   \<and> (\<exists>v. map_of plata_rec (py ''color'') = Some (JString v))"
proof -
  have m: "main latin1_lib sample_run = Inr [plata_rec, liso_rec]" by (rule sample_run_main)
  from output_keys_and_nulls [of latin1_lib sample_run "[plata_rec, liso_rec]"] m
  show ?thesis by simp
qed

text \<open>
  The claim C9 as stated fails: the run over the single link \<open>liso_item\<close>, whose title
  has no width, writes a record whose \<open>width_cm\<close> is null.
\<close>

theorem width_cm_null_counterexample:
  "main latin1_lib [Inr [liso_item]] = Inr [liso_rec]
   \<and> map_of liso_rec (py ''width_cm'') = Some JNull"
proof
  show "main latin1_lib [Inr [liso_item]] = Inr [liso_rec]" by code_simp
  show "map_of liso_rec (py ''width_cm'') = Some JNull" by (simp add: liso_rec_def py_def)
qed

section \<open>Sanitized identifiers and the slug\<close>

lemma strip_class_spec:
  "\<exists>pre post. s = pre @ strip_class p s @ post \<and> list_all p pre \<and> list_all p post
     \<and> (strip_class p s \<noteq> [] \<longrightarrow> \<not> p (hd (strip_class p s)) \<and> \<not> p (last (strip_class p s)))"
proof -
  define m where "m = dropWhile p s"
  define k where "k = dropWhile p (rev m)"
  have st: "strip_class p s = rev k" by (simp add: strip_class_def m_def k_def)
  define post where "post = rev (takeWhile p (rev m))"
  have "rev m = takeWhile p (rev m) @ k" by (simp add: k_def)
  then have "rev (rev m) = rev (takeWhile p (rev m) @ k)" by simp
  then have m: "m = rev k @ post" by (simp add: post_def)
  have s0: "s = takeWhile p s @ m" by (simp add: m_def)
  have s: "s = takeWhile p s @ rev k @ post"
    using s0 m by simp
  have a: "list_all p (takeWhile p s)" by (auto simp: list_all_iff dest: set_takeWhileD)
  have b: "list_all p post" by (auto simp: post_def list_all_iff dest: set_takeWhileD)
  have c: "\<not> p (hd (rev k)) \<and> \<not> p (last (rev k))" if ne: "rev k \<noteq> []"
  proof
    from ne have kne: "k \<noteq> []" by simp
    then have "\<not> p (hd k)" unfolding k_def by (rule hd_dropWhile)
    then show "\<not> p (last (rev k))" using kne by (simp add: last_rev)
    from kne have mne: "m \<noteq> []" by (auto simp: k_def)
    then have "\<not> p (hd m)" unfolding m_def by (rule hd_dropWhile)
    moreover have "hd m = hd (rev k)" using m ne by (metis hd_append2)
    ultimately show "\<not> p (hd (rev k))" by simp
  qed
  from s a b c show ?thesis unfolding st by blast
qed

lemma takeWhile_snoc_stop: "\<not> P x \<Longrightarrow> takeWhile P (xs @ [x]) = takeWhile P xs"
  by (induction xs) auto

lemma takeWhile_snoc_go:
  "P x \<Longrightarrow> takeWhile P (xs @ [x]) = (if list_all P xs then xs @ [x] else takeWhile P xs)"
  by (induction xs) auto

lemma split_on_last:
  "split_on sep s \<noteq> []
   \<and> last (split_on sep s) = rev (takeWhile (\<lambda>c. c \<noteq> sep) (rev s))
   \<and> (tl (split_on sep s) = [] \<longleftrightarrow> sep \<notin> set s)"
proof (induction s)
  case Nil
  then show ?case by simp
next
  case (Cons c cs)
  show ?case
  proof (cases "c = sep")
    case True
    with Cons show ?thesis by (simp add: takeWhile_snoc_stop)
  next
    case False
    from Cons obtain q qs where sp: "split_on sep cs = q # qs" by (cases "split_on sep cs") auto
    have all: "list_all (\<lambda>c. c \<noteq> sep) (rev cs) \<longleftrightarrow> sep \<notin> set cs"
      "list_all (\<lambda>c. c \<noteq> sep) cs \<longleftrightarrow> sep \<notin> set cs"
      by (auto simp: list_all_iff)
    show ?thesis
    proof (cases "qs = []")
      case True
      with Cons sp have n: "sep \<notin> set cs" and q: "q = rev (takeWhile (\<lambda>c. c \<noteq> sep) (rev cs))"
        by auto
      from n have "takeWhile (\<lambda>c. c \<noteq> sep) (rev cs) = rev cs"
        by (auto simp: takeWhile_eq_all_conv)
      with q have "q = cs" by simp
      with False True sp n show ?thesis
        by (simp add: takeWhile_snoc_go all)
    next
      case qne: False
      with Cons sp have n: "sep \<in> set cs" and l: "last qs = rev (takeWhile (\<lambda>c. c \<noteq> sep) (rev cs))"
        by auto
      with False qne sp show ?thesis
        by (simp add: takeWhile_snoc_go all)
    qed
  qed
qed

lemma slug_from_url_eq:
  "slug_from_url L url =
     (let seg = rev (takeWhile (\<lambda>c. c \<noteq> 47) (rev (strip_class (\<lambda>c. c = 47) (urlparse_path L url))))
      in str_replace 45 95 (str_upper L (if seg = [] then py ''producto'' else seg)))"
  by (simp add: slug_from_url_def Let_def split_on_last)

text \<open>
  C3. For every raw identifier (null counts as the empty string), \<open>clean_id\<close> strips the
  whitespace at both ends, uppercases, and keeps exactly the characters of \<open>[A-Z0-9_-]\<close>,
  in their order; it returns null when nothing remains, and otherwise a non-empty string
  of such characters. The stripped string is the input without a leading and a trailing
  run of whitespace, and neither begins nor ends with whitespace. The identifier of an
  extracted product is the sanitized SKU text when that is not null, and otherwise the
  sanitized slug of the URL. The slug is the part of the URL path (without its leading and
  trailing slashes) after its last slash, or \<open>producto\<close> when that part is empty,
  uppercased, with every hyphen replaced by an underscore.
\<close>

theorem clean_id_and_slug_fallback:
  "clean_id L text =
     (let t = filter id_char (str_upper L (strip_class (str_isspace L) (or_empty text)))
      in if t = [] then None else Some t)
   \<and> (\<exists>pre post.
         or_empty text = pre @ strip_class (str_isspace L) (or_empty text) @ post
         \<and> list_all (str_isspace L) pre \<and> list_all (str_isspace L) post
         \<and> (strip_class (str_isspace L) (or_empty text) \<noteq> [] \<longrightarrow>
              \<not> str_isspace L (hd (strip_class (str_isspace L) (or_empty text)))
              \<and> \<not> str_isspace L (last (strip_class (str_isspace L) (or_empty text)))))
   \<and> (\<forall>s. clean_id L text = Some s \<longrightarrow> s \<noteq> [] \<and> list_all id_char s)
   \<and> (\<forall>soup url d.
         extract_product L (Inr soup) url = Inr d \<longrightarrow>
         d_id d =
           (case clean_id L (case soup Sel_sku of None \<Rightarrow> None | Some el \<Rightarrow> Some (get_text el)) of
              None \<Rightarrow> clean_id L (Some (slug_from_url L url))
            | Some s \<Rightarrow> Some s))
   \<and> (\<forall>url. slug_from_url L url =
         (let seg = rev (takeWhile (\<lambda>c. c \<noteq> 47)
                      (rev (strip_class (\<lambda>c. c = 47) (urlparse_path L url))))
          in str_replace 45 95 (str_upper L (if seg = [] then py ''producto'' else seg))))"
proof (intro conjI allI impI)
  show "clean_id L text =
     (let t = filter id_char (str_upper L (strip_class (str_isspace L) (or_empty text)))
      in if t = [] then None else Some t)"
    by (simp add: clean_id_filter Let_def)
  show "\<exists>pre post.
         or_empty text = pre @ strip_class (str_isspace L) (or_empty text) @ post
         \<and> list_all (str_isspace L) pre \<and> list_all (str_isspace L) post
         \<and> (strip_class (str_isspace L) (or_empty text) \<noteq> [] \<longrightarrow>
              \<not> str_isspace L (hd (strip_class (str_isspace L) (or_empty text)))
              \<and> \<not> str_isspace L (last (strip_class (str_isspace L) (or_empty text))))"
    by (rule strip_class_spec)
  show "s \<noteq> []" if "clean_id L text = Some s" for s
    using clean_id_Some [OF that] by simp
  show "list_all id_char s" if "clean_id L text = Some s" for s
    using clean_id_Some [OF that] by simp
  show "d_id d =
           (case clean_id L (case soup Sel_sku of None \<Rightarrow> None | Some el \<Rightarrow> Some (get_text el)) of
              None \<Rightarrow> clean_id L (Some (slug_from_url L url))
            | Some s \<Rightarrow> Some s)"
    if "extract_product L (Inr soup) url = Inr d" for soup url and d :: "'a product_data"
    using that by (rule extract_product_id)
  show "slug_from_url L url =
         (let seg = rev (takeWhile (\<lambda>c. c \<noteq> 47)
                      (rev (strip_class (\<lambda>c. c = 47) (urlparse_path L url))))
          in str_replace 45 95 (str_upper L (if seg = [] then py ''producto'' else seg)))" for url
    by (rule slug_from_url_eq)
qed

theorem clean_id_and_slug_fallback_witness:
  "clean_id latin1_lib (Some (py '' ab-c_1/x y '')) = Some (py ''AB-C_1XY'')
   \<and> list_all id_char (py ''AB-C_1XY'')
   \<and> (\<exists>d. extract_product latin1_lib (Inr liso_soup) (it_url liso_item) = Inr d
          \<and> d_id d = Some (py ''MARCO_LISO''))"
proof -
  have c: "clean_id latin1_lib (Some (py '' ab-c_1/x y '')) = Some (py ''AB-C_1XY'')"
    by code_simp
  have "map_sum id (\<lambda>d. ()) (extract_product latin1_lib (Inr liso_soup) (it_url liso_item)) = Inr ()"
    by code_simp
  then obtain d where e: "extract_product latin1_lib (Inr liso_soup) (it_url liso_item) = Inr d"
    by (cases "extract_product latin1_lib (Inr liso_soup) (it_url liso_item)") auto
  have k: "clean_id latin1_lib (case liso_soup Sel_sku of None \<Rightarrow> None
                                | Some el \<Rightarrow> Some (get_text el)) = None"
    by code_simp
  have u: "clean_id latin1_lib (Some (slug_from_url latin1_lib (it_url liso_item)))
             = Some (py ''MARCO_LISO'')"
    by code_simp
  from clean_id_and_slug_fallback [of latin1_lib "Some (py '' ab-c_1/x y '')"] c
  have a: "list_all id_char (py ''AB-C_1XY'')" by blast
  from clean_id_and_slug_fallback [of latin1_lib "Some (py '' ab-c_1/x y '')"] e
  have "d_id d =
           (case clean_id latin1_lib (case liso_soup Sel_sku of None \<Rightarrow> None
                                      | Some el \<Rightarrow> Some (get_text el)) of
              None \<Rightarrow> clean_id latin1_lib (Some (slug_from_url latin1_lib (it_url liso_item)))
            | Some s \<Rightarrow> Some s)"
    by blast
  with k u have "d_id d = Some (py ''MARCO_LISO'')" by simp
  with c a e show ?thesis by blast
qed

section \<open>The width pattern\<close>

lemma take_all_prefix:
  assumes "n \<le> length (takeWhile p s)"
  shows "list_all p (take n s)"
proof -
  have "take n s = take n (takeWhile p s @ dropWhile p s)" by simp
  also have "\<dots> = take n (takeWhile p s)" using assms by (simp del: takeWhile_dropWhile_id)
  finally have "set (take n s) \<subseteq> set (takeWhile p s)" by (simp add: set_take_subset)
  then show ?thesis by (auto simp: list_all_iff dest: set_takeWhileD)
qed

lemma greedy_mem:
  "(a, b) \<in> set (greedy p lo s) \<longleftrightarrow> s = a @ b \<and> lo \<le> length a \<and> list_all p a"
proof
  assume "(a, b) \<in> set (greedy p lo s)"
  then obtain n where n: "lo \<le> n" "n \<le> length (takeWhile p s)"
    and ab: "a = take n s" "b = drop n s"
    by (auto simp: greedy_def)
  have "length (takeWhile p s) \<le> length s" by (rule length_takeWhile_le)
  with n have "length a = n" by (simp add: ab)
  with n ab take_all_prefix [OF n(2)] show "s = a @ b \<and> lo \<le> length a \<and> list_all p a"
    by simp
next
  assume h: "s = a @ b \<and> lo \<le> length a \<and> list_all p a"
  then have "takeWhile p s = a @ takeWhile p b"
    by (simp add: list_all_iff takeWhile_append2)
  then have le: "length a \<le> length (takeWhile p s)" by simp
  have "lo \<le> length a" using h by simp
  moreover have "length a < Suc (length (takeWhile p s))" using le by (rule le_imp_less_Suc)
  ultimately have "length a \<in> set (rev [lo ..< Suc (length (takeWhile p s))])"
    by (simp only: set_rev set_upt atLeastLessThan_iff)
  moreover have "(a, b) = (take (length a) s, drop (length a) s)" using h by simp
  ultimately show "(a, b) \<in> set (greedy p lo s)"
    unfolding greedy_def by (metis (no_types, lifting) image_eqI set_map)
qed

lemma opt_frac_mem:
  "(fr, r) \<in> set (opt_frac L s) \<longleftrightarrow>
     s = fr @ r \<and>
     (fr = [] \<or> (\<exists>sp fs. fr = sp # fs \<and> is_sep sp \<and> fs \<noteq> [] \<and> list_all (re_digit L) fs))"
proof (cases s)
  case Nil
  then show ?thesis by (auto simp: opt_frac_def)
next
  case (Cons c cs)
  show ?thesis
  proof (cases "is_sep c")
    case False
    with Cons show ?thesis by (auto simp: opt_frac_def)
  next
    case True
    have "(fr, r) \<in> set (opt_frac L s) \<longleftrightarrow>
            (\<exists>fs. fr = c # fs \<and> (fs, r) \<in> set (greedy (re_digit L) 1 cs)) \<or> (fr = [] \<and> r = s)"
      using Cons True by (auto simp: opt_frac_def)
    also have "\<dots> \<longleftrightarrow> (\<exists>fs. fr = c # fs \<and> cs = fs @ r \<and> fs \<noteq> [] \<and> list_all (re_digit L) fs)
                     \<or> (fr = [] \<and> r = s)"
      by (simp add: greedy_mem Suc_le_eq)
    also have "\<dots> \<longleftrightarrow> s = fr @ r \<and>
     (fr = [] \<or> (\<exists>sp fs. fr = sp # fs \<and> is_sep sp \<and> fs \<noteq> [] \<and> list_all (re_digit L) fs))"
      using Cons True by auto
    finally show ?thesis .
  qed
qed

lemma cm_here_iff: "cm_here s \<longleftrightarrow> (\<exists>c m rest. s = c # m # rest \<and> is_c c \<and> is_m m)"
  by (auto simp: cm_here_def split: list.splits)

lemma in_concat_map: "g \<in> set (concat (map f xs)) \<longleftrightarrow> (\<exists>x \<in> set xs. g \<in> set (f x))"
  by auto

lemma match_here_mem_raw:
  "g \<in> set (match_here L s) \<longleftrightarrow>
     (\<exists>ds r1 fr r2 ws r3.
        (ds, r1) \<in> set (greedy (re_digit L) 1 s) \<and> (fr, r2) \<in> set (opt_frac L r1) \<and>
        (ws, r3) \<in> set (greedy (str_isspace L) 0 r2) \<and> cm_here r3 \<and> g = ds @ fr)"
proof
  assume "g \<in> set (match_here L s)"
  then obtain x where x: "x \<in> set (greedy (re_digit L) 1 s)"
    and g1: "g \<in> set (case x of (ds, r1) \<Rightarrow>
       concat (map (\<lambda>(fr, r2).
         concat (map (\<lambda>(ws, r3). if cm_here r3 then [ds @ fr] else [])
           (greedy (str_isspace L) 0 r2)))
         (opt_frac L r1)))"
    unfolding match_here_def in_concat_map by blast
  obtain ds r1 where xe: "x = (ds, r1)" by (cases x)
  from g1 xe obtain y where y: "y \<in> set (opt_frac L r1)"
    and g2: "g \<in> set (case y of (fr, r2) \<Rightarrow>
         concat (map (\<lambda>(ws, r3). if cm_here r3 then [ds @ fr] else [])
           (greedy (str_isspace L) 0 r2)))"
    unfolding xe prod.case in_concat_map by blast
  obtain fr r2 where ye: "y = (fr, r2)" by (cases y)
  from g2 ye obtain z where z: "z \<in> set (greedy (str_isspace L) 0 r2)"
    and g3: "g \<in> set (case z of (ws, r3) \<Rightarrow> if cm_here r3 then [ds @ fr] else [])"
    unfolding ye prod.case in_concat_map by blast
  obtain ws r3 where ze: "z = (ws, r3)" by (cases z)
  from g3 have "cm_here r3 \<and> g = ds @ fr" unfolding ze prod.case by (auto split: if_splits)
  with x xe y ye z ze show "\<exists>ds r1 fr r2 ws r3.
        (ds, r1) \<in> set (greedy (re_digit L) 1 s) \<and> (fr, r2) \<in> set (opt_frac L r1) \<and>
        (ws, r3) \<in> set (greedy (str_isspace L) 0 r2) \<and> cm_here r3 \<and> g = ds @ fr"
    by blast
next
  assume "\<exists>ds r1 fr r2 ws r3.
        (ds, r1) \<in> set (greedy (re_digit L) 1 s) \<and> (fr, r2) \<in> set (opt_frac L r1) \<and>
        (ws, r3) \<in> set (greedy (str_isspace L) 0 r2) \<and> cm_here r3 \<and> g = ds @ fr"
  then obtain ds r1 fr r2 ws r3 where
    a: "(ds, r1) \<in> set (greedy (re_digit L) 1 s)" and b: "(fr, r2) \<in> set (opt_frac L r1)"
    and c: "(ws, r3) \<in> set (greedy (str_isspace L) 0 r2)" and d: "cm_here r3" and g: "g = ds @ fr"
    by blast
  from c d have 1: "ds @ fr \<in> set (concat (map (\<lambda>(ws, r3). if cm_here r3 then [ds @ fr] else [])
           (greedy (str_isspace L) 0 r2)))"
    unfolding in_concat_map by (intro bexI [of _ "(ws, r3)"]) simp_all
  from b 1 have 2: "ds @ fr \<in> set (concat (map (\<lambda>(fr, r2).
         concat (map (\<lambda>(ws, r3). if cm_here r3 then [ds @ fr] else [])
           (greedy (str_isspace L) 0 r2)))
         (opt_frac L r1)))"
    unfolding in_concat_map [of _ _ "opt_frac L r1"]
    by (intro bexI [of _ "(fr, r2)"]) simp_all
  from a 2 show "g \<in> set (match_here L s)"
    unfolding match_here_def g in_concat_map [of _ _ "greedy (re_digit L) 1 s"]
    by (intro bexI [of _ "(ds, r1)"]) simp_all
qed

lemma match_here_mem: "g \<in> set (match_here L s) \<longleftrightarrow> width_token L s g"
proof
  assume "g \<in> set (match_here L s)"
  then obtain ds r1 fr r2 ws r3 where
    a: "(ds, r1) \<in> set (greedy (re_digit L) 1 s)" and b: "(fr, r2) \<in> set (opt_frac L r1)"
    and c: "(ws, r3) \<in> set (greedy (str_isspace L) 0 r2)" and d: "cm_here r3" and g: "g = ds @ fr"
    unfolding match_here_mem_raw by blast
  from a have a': "s = ds @ r1" "ds \<noteq> []" "list_all (re_digit L) ds"
    by (auto simp: greedy_mem)
  from b have b': "r1 = fr @ r2"
    "fr = [] \<or> (\<exists>sp fs. fr = sp # fs \<and> is_sep sp \<and> fs \<noteq> [] \<and> list_all (re_digit L) fs)"
    by (auto simp: opt_frac_mem)
  from c have c': "r2 = ws @ r3" "list_all (str_isspace L) ws" by (auto simp: greedy_mem)
  from d obtain c m rest where d': "r3 = c # m # rest" "is_c c" "is_m m"
    unfolding cm_here_iff by blast
  have "s = ds @ fr @ ws @ [c, m] @ rest" using a'(1) b'(1) c'(1) d'(1) by simp
  with g a'(2,3) b'(2) c'(2) d'(2,3) show "width_token L s g"
    unfolding width_token_def by blast
next
  assume "width_token L s g"
  then obtain ds fr ws c m rest where
    s: "s = ds @ fr @ ws @ [c, m] @ rest" and g: "g = ds @ fr"
    and ds: "ds \<noteq> []" "list_all (re_digit L) ds"
    and fr: "fr = [] \<or> (\<exists>sp fs. fr = sp # fs \<and> is_sep sp \<and> fs \<noteq> [] \<and> list_all (re_digit L) fs)"
    and ws: "list_all (str_isspace L) ws" and cm: "is_c c" "is_m m"
    unfolding width_token_def by blast
  have a: "(ds, fr @ ws @ [c, m] @ rest) \<in> set (greedy (re_digit L) 1 s)"
    using s ds by (cases ds) (simp_all add: greedy_mem)
  have b: "(fr, ws @ [c, m] @ rest) \<in> set (opt_frac L (fr @ ws @ [c, m] @ rest))"
    using fr unfolding opt_frac_mem by blast
  have c: "(ws, [c, m] @ rest) \<in> set (greedy (str_isspace L) 0 (ws @ [c, m] @ rest))"
    using ws by (simp add: greedy_mem)
  have d: "cm_here ([c, m] @ rest)" using cm by (simp add: cm_here_iff)
  from a b c d g show "g \<in> set (match_here L s)"
    unfolding match_here_mem_raw by blast
qed

lemma takeWhile_stop: "list_all p ds \<Longrightarrow> \<not> p x \<Longrightarrow> takeWhile p (ds @ x # r) = ds"
  by (induction ds) auto

lemma dropWhile_stop: "list_all p ds \<Longrightarrow> \<not> p x \<Longrightarrow> dropWhile p (ds @ x # r) = x # r"
  by (induction ds) auto

lemma width_token_canon:
  assumes dj: "classes_disjoint L" and tk: "width_token L s tok"
  shows "tok = takeWhile (re_digit L) s @
           (case dropWhile (re_digit L) s of
              [] \<Rightarrow> []
            | x # r \<Rightarrow> if is_sep x then x # takeWhile (re_digit L) r else [])"
proof -
  from tk obtain ds fr ws c m rest where
    s: "s = ds @ fr @ ws @ [c, m] @ rest" and g: "tok = ds @ fr"
    and ds: "list_all (re_digit L) ds"
    and fr: "fr = [] \<or> (\<exists>sp fs. fr = sp # fs \<and> is_sep sp \<and> fs \<noteq> [] \<and> list_all (re_digit L) fs)"
    and ws: "list_all (str_isspace L) ws" and cm: "is_c c"
    unfolding width_token_def by blast
  have nd_c: "\<not> re_digit L c" using dj cm by (auto simp: classes_disjoint_def)
  have ns_c: "\<not> is_sep c" using cm by (auto simp: is_c_def is_sep_def)
  obtain x r where tail: "ws @ [c, m] @ rest = x # r" and ndx: "\<not> re_digit L x" and nsx: "\<not> is_sep x"
  proof (cases ws)
    case Nil
    with nd_c ns_c that show ?thesis by simp
  next
    case (Cons w ws')
    with ws have "str_isspace L w" by simp
    with dj have "\<not> re_digit L w" "\<not> is_sep w" by (auto simp: classes_disjoint_def)
    with Cons that show ?thesis by simp
  qed
  from fr show ?thesis
  proof
    assume f: "fr = []"
    with s tail have s': "s = ds @ x # r" by simp
    show ?thesis
      unfolding s' takeWhile_stop [OF ds ndx] dropWhile_stop [OF ds ndx] using g f nsx by simp
  next
    assume "\<exists>sp fs. fr = sp # fs \<and> is_sep sp \<and> fs \<noteq> [] \<and> list_all (re_digit L) fs"
    then obtain sp fs where f: "fr = sp # fs" "is_sep sp" "list_all (re_digit L) fs" by blast
    from dj f(2) have ndsp: "\<not> re_digit L sp" by (auto simp: classes_disjoint_def)
    from s tail f(1) have s': "s = ds @ sp # (fs @ x # r)" by simp
    show ?thesis
      unfolding s' takeWhile_stop [OF ds ndsp] dropWhile_stop [OF ds ndsp]
      using g f takeWhile_stop [OF f(3) ndx] by simp
  qed
qed

lemma width_token_unique:
  "classes_disjoint L \<Longrightarrow> width_token L s a \<Longrightarrow> width_token L s b \<Longrightarrow> a = b"
  using width_token_canon [of L s a] width_token_canon [of L s b] by simp

lemma match_here_head:
  assumes "classes_disjoint L" "width_token L s tok"
  shows "\<exists>gs. match_here L s = tok # gs"
proof (cases "match_here L s")
  case Nil
  with assms(2) show ?thesis using match_here_mem [of tok L s] by simp
next
  case (Cons g gs)
  then have "g \<in> set (match_here L s)" by simp
  then have "width_token L s g" by (simp add: match_here_mem)
  with assms have "g = tok" using width_token_unique by blast
  with Cons show ?thesis by simp
qed

lemma match_here_none: "(\<forall>tok. \<not> width_token L s tok) \<longleftrightarrow> match_here L s = []"
proof (cases "match_here L s")
  case Nil
  then show ?thesis using match_here_mem [of _ L s] by simp
next
  case (Cons g gs)
  then have "g \<in> set (match_here L s)" by simp
  then have "width_token L s g" by (simp add: match_here_mem)
  with Cons show ?thesis by auto
qed

lemma width_token_nonempty: "width_token L s tok \<Longrightarrow> s \<noteq> []"
  by (auto simp: width_token_def)

lemma re_search_None_iff:
  "re_search L t = None \<longleftrightarrow> (\<forall>i \<le> length t. match_here L (drop i t) = [])"
proof (induction t)
  case Nil
  then show ?case by (simp split: list.splits)
next
  case (Cons c cs)
  have "(\<forall>i \<le> length (c # cs). match_here L (drop i (c # cs)) = []) \<longleftrightarrow>
        match_here L (c # cs) = [] \<and> (\<forall>i \<le> length cs. match_here L (drop i cs) = [])"
  proof (intro iffI conjI allI impI)
    assume h: "\<forall>i \<le> length (c # cs). match_here L (drop i (c # cs)) = []"
    from h [rule_format, of 0] show "match_here L (c # cs) = []" by simp
    fix i assume "i \<le> length cs"
    with h [rule_format, of "Suc i"] show "match_here L (drop i cs) = []" by simp
  next
    fix i
    assume h: "match_here L (c # cs) = [] \<and> (\<forall>i \<le> length cs. match_here L (drop i cs) = [])"
      and i: "i \<le> length (c # cs)"
    then show "match_here L (drop i (c # cs)) = []" by (cases i) simp_all
  qed
  with Cons show ?case by (simp split: list.splits)
qed

lemma re_search_first:
  "match_here L (drop i t) = g # gs \<Longrightarrow> i \<le> length t \<Longrightarrow>
   (\<forall>j<i. match_here L (drop j t) = []) \<Longrightarrow> re_search L t = Some g"
proof (induction t arbitrary: i)
  case Nil
  then show ?case by simp
next
  case (Cons c cs)
  show ?case
  proof (cases i)
    case 0
    with Cons.prems show ?thesis by simp
  next
    case (Suc n)
    from Cons.prems(3) Suc have z: "match_here L (c # cs) = []" by (auto dest: spec [of _ 0])
    have "re_search L cs = Some g"
    proof (rule Cons.IH)
      show "match_here L (drop n cs) = g # gs" using Cons.prems(1) Suc by simp
      show "n \<le> length cs" using Cons.prems(2) Suc by simp
      show "\<forall>j<n. match_here L (drop j cs) = []"
      proof (intro allI impI)
        fix j assume "j < n"
        then have "Suc j < i" using Suc by simp
        with Cons.prems(3) have "match_here L (drop (Suc j) (c # cs)) = []" by blast
        then show "match_here L (drop j cs) = []" by simp
      qed
    qed
    with z show ?thesis by simp
  qed
qed

lemma no_token_iff:
  "(\<forall>i tok. \<not> width_token L (drop i t) tok) \<longleftrightarrow> re_search L t = None"
proof -
  have "(\<forall>i tok. \<not> width_token L (drop i t) tok) \<longleftrightarrow> (\<forall>i. match_here L (drop i t) = [])"
    by (simp add: match_here_none)
  also have "\<dots> \<longleftrightarrow> (\<forall>i \<le> length t. match_here L (drop i t) = [])"
  proof (intro iffI allI impI)
    fix i
    assume h: "\<forall>i \<le> length t. match_here L (drop i t) = []"
    show "match_here L (drop i t) = []"
    proof (cases "i \<le> length t")
      case True
      with h show ?thesis by blast
    next
      case False
      then have "drop i t = drop (length t) t" by simp
      with h show ?thesis by (metis order_refl)
    qed
  qed blast
  finally show ?thesis by (simp add: re_search_None_iff)
qed

lemma no_token_before_iff:
  "(\<forall>j<i. \<forall>tok. \<not> width_token L (drop j t) tok) \<longleftrightarrow>
     list_all (\<lambda>j. match_here L (drop j t) = []) [0..<i]"
  by (auto simp: match_here_none list_all_iff)

lemma parse_width_first:
  assumes dj: "classes_disjoint L" and tk: "width_token L (drop i t) tok"
    and first: "\<forall>j<i. \<forall>tok'. \<not> width_token L (drop j t) tok'"
  shows "parse_width_cm L (Some t) =
           (case float_of L (str_replace 44 46 tok) of Inl e \<Rightarrow> None | Inr x \<Rightarrow> Some x)"
proof -
  from tk have ne: "drop i t \<noteq> []" by (rule width_token_nonempty)
  then have i: "i \<le> length t" and t: "t \<noteq> []" by auto
  from match_here_head [OF dj tk] obtain gs where m: "match_here L (drop i t) = tok # gs" by blast
  from first have "\<forall>j<i. match_here L (drop j t) = []" by (simp add: match_here_none)
  with m i have "re_search L t = Some tok" by (rule re_search_first)
  with t show ?thesis by (simp add: parse_width_cm_def Let_def)
qed

text \<open>
  C2. A null title and the empty title give null. A title in which no position starts a
  width token (digits, optionally \<open>.\<close> or \<open>,\<close> and digits, then optional whitespace and
  \<open>cm\<close> in either case) gives null. Given that the character classes of the pattern do
  not overlap, as in Python: when position \<open>i\<close> of the title starts the token \<open>tok\<close> and
  no earlier position starts a token, the result is \<open>float\<close> of \<open>tok\<close> with its comma
  replaced by a period (and null if \<open>float\<close> were to raise, which Python's does not on
  such a literal).
\<close>

theorem parse_width_first_token:
  "parse_width_cm L None = None
   \<and> parse_width_cm L (Some []) = None
   \<and> ((\<forall>i tok. \<not> width_token L (drop i t) tok) \<longrightarrow> parse_width_cm L (Some t) = None)
   \<and> (classes_disjoint L \<longrightarrow>
        (\<forall>i tok. width_token L (drop i t) tok \<and> (\<forall>j<i. \<forall>tok'. \<not> width_token L (drop j t) tok')
           \<longrightarrow> parse_width_cm L (Some t) =
                 (case float_of L (str_replace 44 46 tok) of Inl e \<Rightarrow> None | Inr x \<Rightarrow> Some x)))"
proof (intro conjI allI impI)
  show "parse_width_cm L None = None" by (simp add: parse_width_cm_def)
  show "parse_width_cm L (Some []) = None" by (simp add: parse_width_cm_def)
  show "parse_width_cm L (Some t) = None" if "\<forall>i tok. \<not> width_token L (drop i t) tok"
    using that by (simp add: no_token_iff parse_width_cm_def)
  show "parse_width_cm L (Some t) =
          (case float_of L (str_replace 44 46 tok) of Inl e \<Rightarrow> None | Inr x \<Rightarrow> Some x)"
    if "classes_disjoint L"
      and "width_token L (drop i t) tok \<and> (\<forall>j<i. \<forall>tok'. \<not> width_token L (drop j t) tok')"
    for i tok
    using that by (intro parse_width_first [of L i t tok]) simp_all
qed

lemma latin1_classes_disjoint: "classes_disjoint latin1_lib"
  by (auto simp: classes_disjoint_def latin1_lib_def ascii_digit_def is_sep_def is_c_def
      latin1_isspace_def)

theorem parse_width_first_token_witness:
  "classes_disjoint latin1_lib
   \<and> parse_width_cm latin1_lib (Some (py ''A 3,5 cm'')) = Some (7 / 2)
   \<and> parse_width_cm latin1_lib (Some (py ''Marco Liso'')) = None"
proof -
  have tk: "width_token latin1_lib (drop 2 (py ''A 3,5 cm'')) (py ''3,5'')"
    unfolding match_here_mem [symmetric] by code_simp
  have nb: "\<forall>j<2. \<forall>tok'. \<not> width_token latin1_lib (drop j (py ''A 3,5 cm'')) tok'"
    unfolding no_token_before_iff by code_simp
  have fl: "float_of latin1_lib (str_replace 44 46 (py ''3,5'')) = Inr (7 / 2)"
    by code_simp
  have nt: "\<forall>i tok. \<not> width_token latin1_lib (drop i (py ''Marco Liso'')) tok"
    unfolding no_token_iff by code_simp
  from parse_width_first_token [of latin1_lib "py ''A 3,5 cm''"] latin1_classes_disjoint tk nb
  have a: "parse_width_cm latin1_lib (Some (py ''A 3,5 cm'')) =
             (case float_of latin1_lib (str_replace 44 46 (py ''3,5'')) of
                Inl e \<Rightarrow> None | Inr x \<Rightarrow> Some x)"
    by blast
  from parse_width_first_token [of latin1_lib "py ''Marco Liso''"] nt
  have b: "parse_width_cm latin1_lib (Some (py ''Marco Liso'')) = None" by blast
  from a b fl latin1_classes_disjoint show ?thesis by simp
qed

end
